theory Spec2Isabelle
  imports Complex_Main
begin

section \<open>Party lifecycle and attendance: the data model\<close>

text \<open>
  The party service (\<^verbatim>\<open>services/partyService.ts\<close>) works on a relational store through
  Prisma. The store is modelled as a record of tables, each table a list of rows in
  insertion order. Every service function takes the store and returns its outcome
  together with the store it leaves behind, so that "an error leaves the roster
  unchanged" is a statement about the function and not a property of the types.

  Not modelled: the users table (the host summary of a response is the host id), the
  \<^verbatim>\<open>createdAt\<close>/\<^verbatim>\<open>joinedAt\<close> timestamps, the coordinates and place id of a venue
  (floating point), and logging. Dates are epoch milliseconds.
\<close>

datatype PartyStatus = DRAFT | PLANNED | LIVE | ENDED | CANCELLED

datatype error =
    ZodError
  | AppError string nat
  | PrismaClientKnownRequestError
  | OtherError

record PartyEvent =
  p_id :: string
  hostId :: string
  title :: string
  description :: "string option"
  coverImageUrl :: "string option"
  startsAt :: int
  endsAt :: "int option"
  status :: PartyStatus
  isPrivate :: bool
  accessCode :: "string option"
  maxAttendees :: "int option"
  attendeesCount :: int

record PartyAttendee =
  a_partyId :: string
  a_userId :: string
  role :: string

record Venue =
  v_partyId :: string
  v_name :: string
  v_address :: "string option"

record Tag =
  t_name :: string
  slug :: string
  usageCount :: int

text \<open>
  A \<^verbatim>\<open>PartyTag\<close> row links a party to a tag. The source keys it by the tag's generated
  id; the model keys it by the tag's slug, the other unique key of the same row.
\<close>

record PartyTag =
  pt_partyId :: string
  pt_tagSlug :: string

text \<open>
  The column defaults of \<^verbatim>\<open>PartyEvent.attendeesCount\<close> and \<^verbatim>\<open>Tag.usageCount\<close> are set in
  \<^verbatim>\<open>prisma/schema.prisma\<close>, which is not among the sources: the store carries them as
  parameters. The specification describes a new party with \<^verbatim>\<open>attendeesCount = 1\<close> and a
  new tag with a usage of 1, which would be defaults of 1; the like and view counters of
  the media service, created in the same way without a value, need a default of 0.
\<close>

record db =
  partyEvents :: "PartyEvent list"
  partyAttendees :: "PartyAttendee list"
  chatRooms :: "string list"
  venues :: "Venue list"
  tags :: "Tag list"
  partyTags :: "PartyTag list"
  attendeesCount_default :: int
  usageCount_default :: int

record VenueInput =
  vi_name :: string
  vi_address :: "string option"

record CreatePartyInput =
  c_title :: string
  c_description :: "string option"
  c_coverImageUrl :: "string option"
  c_startsAt :: int
  c_endsAt :: "int option"
  c_isPrivate :: bool
  c_maxAttendees :: "int option"
  c_venue :: "VenueInput option"
  c_tags :: "string list option"

record UpdatePartyInput =
  u_title :: "string option"
  u_description :: "string option"
  u_coverImageUrl :: "string option"
  u_startsAt :: "int option"
  u_endsAt :: "int option"
  u_isPrivate :: "bool option"
  u_maxAttendees :: "int option"
  u_status :: "PartyStatus option"
  u_venue :: "VenueInput option"

record ListPartiesInput =
  page :: nat
  limit :: nat
  f_status :: "PartyStatus option"
  f_hostId :: "string option"
  f_search :: "string option"
  f_upcoming :: "bool option"

text \<open>A party row as a query with \<^verbatim>\<open>include: {host, venue, tags}\<close> returns it.\<close>

record PartyWithRelations =
  row :: PartyEvent
  inc_venue :: "Venue option"
  inc_tags :: "Tag list"

record PartyResponse =
  r_id :: string
  r_title :: string
  r_description :: "string option"
  r_coverImageUrl :: "string option"
  r_startsAt :: int
  r_endsAt :: "int option"
  r_status :: PartyStatus
  r_isPrivate :: bool
  r_accessCode :: "string option"
  r_maxAttendees :: "int option"
  r_attendeesCount :: int
  r_host :: string
  r_venue :: "Venue option"
  r_tags :: "string list"

section \<open>JavaScript truthiness and the error handler\<close>

text \<open>
  \<^verbatim>\<open>x && ...\<close> and \<^verbatim>\<open>!x\<close> on an optional string or number: \<^verbatim>\<open>undefined\<close>, \<^verbatim>\<open>null\<close>, the
  empty string and \<^verbatim>\<open>0\<close> are falsy.
\<close>

definition truthy_string :: "string option \<Rightarrow> bool" where
  "truthy_string s = (case s of None \<Rightarrow> False | Some v \<Rightarrow> v \<noteq> [])"

definition truthy_number :: "int option \<Rightarrow> bool" where
  "truthy_number n = (case n of None \<Rightarrow> False | Some v \<Rightarrow> v \<noteq> 0)"

text \<open>\<^verbatim>\<open>errorHandler\<close> of \<^verbatim>\<open>middleware/errorHandler.ts\<close>: the HTTP status and message sent.\<close>

fun errorHandler :: "error \<Rightarrow> nat \<times> string" where
  "errorHandler ZodError = (400, ''Validation error'')"
| "errorHandler (AppError message statusCode) = (statusCode, message)"
| "errorHandler PrismaClientKnownRequestError = (400, ''Database error'')"
| "errorHandler OtherError = (500, ''Internal server error'')"

section \<open>The store's primitives\<close>

text \<open>
  \<^verbatim>\<open>findUnique\<close> on a unique key returns the row or \<^verbatim>\<open>null\<close>; \<^verbatim>\<open>create\<close> is rejected when
  it would break a unique key; \<^verbatim>\<open>update\<close> and \<^verbatim>\<open>delete\<close> are rejected when the row is
  absent. A unique index admits any number of \<^verbatim>\<open>null\<close> access codes.
\<close>

definition partyEvent_findUnique :: "db \<Rightarrow> string \<Rightarrow> PartyEvent option" where
  "partyEvent_findUnique d partyId = find (\<lambda>p. p_id p = partyId) (partyEvents d)"

definition partyEvent_findUnique_accessCode :: "db \<Rightarrow> string \<Rightarrow> PartyEvent option" where
  "partyEvent_findUnique_accessCode d code =
     find (\<lambda>p. accessCode p = Some code) (partyEvents d)"

definition partyAttendee_findUnique :: "db \<Rightarrow> string \<Rightarrow> string \<Rightarrow> PartyAttendee option" where
  "partyAttendee_findUnique d partyId userId =
     find (\<lambda>a. a_partyId a = partyId \<and> a_userId a = userId) (partyAttendees d)"

definition partyAttendee_count :: "db \<Rightarrow> string \<Rightarrow> nat" where
  "partyAttendee_count d partyId =
     length (filter (\<lambda>a. a_partyId a = partyId) (partyAttendees d))"

definition partyEvent_create :: "PartyEvent \<Rightarrow> db \<Rightarrow> error + db" where
  "partyEvent_create p d =
     (if partyEvent_findUnique d (p_id p) \<noteq> None then Inl PrismaClientKnownRequestError
      else if (case accessCode p of None \<Rightarrow> False
               | Some code \<Rightarrow> partyEvent_findUnique_accessCode d code \<noteq> None)
      then Inl PrismaClientKnownRequestError
      else Inr (d\<lparr>partyEvents := partyEvents d @ [p]\<rparr>))"

definition partyEvent_update :: "string \<Rightarrow> (PartyEvent \<Rightarrow> PartyEvent) \<Rightarrow> db \<Rightarrow> error + db" where
  "partyEvent_update partyId f d =
     (if partyEvent_findUnique d partyId = None then Inl PrismaClientKnownRequestError
      else Inr (d\<lparr>partyEvents :=
                  map (\<lambda>p. if p_id p = partyId then f p else p) (partyEvents d)\<rparr>))"

definition partyAttendee_create :: "PartyAttendee \<Rightarrow> db \<Rightarrow> error + db" where
  "partyAttendee_create a d =
     (if partyAttendee_findUnique d (a_partyId a) (a_userId a) \<noteq> None
      then Inl PrismaClientKnownRequestError
      else Inr (d\<lparr>partyAttendees := partyAttendees d @ [a]\<rparr>))"

text \<open>
  \<^verbatim>\<open>partyAttendee.delete({where: {id: attendee.id}})\<close> removes the one row that was read.
\<close>

definition partyAttendee_delete :: "PartyAttendee \<Rightarrow> db \<Rightarrow> error + db" where
  "partyAttendee_delete a d =
     (if a \<in> set (partyAttendees d)
      then Inr (d\<lparr>partyAttendees := remove1 a (partyAttendees d)\<rparr>)
      else Inl PrismaClientKnownRequestError)"

definition chatRoom_create :: "string \<Rightarrow> db \<Rightarrow> error + db" where
  "chatRoom_create partyId d =
     (if partyId \<in> set (chatRooms d) then Inl PrismaClientKnownRequestError
      else Inr (d\<lparr>chatRooms := chatRooms d @ [partyId]\<rparr>))"

definition venue_upsert :: "string \<Rightarrow> VenueInput \<Rightarrow> db \<Rightarrow> db" where
  "venue_upsert partyId v d =
     (let new = \<lparr>v_partyId = partyId, v_name = vi_name v, v_address = vi_address v\<rparr> in
      if find (\<lambda>x. v_partyId x = partyId) (venues d) = None
      then d\<lparr>venues := venues d @ [new]\<rparr>
      else d\<lparr>venues := map (\<lambda>x. if v_partyId x = partyId then new else x) (venues d)\<rparr>)"

text \<open>
  \<^verbatim>\<open>prisma.$transaction([...])\<close> runs its writes in order and commits all of them or none:
  when one is rejected the store is the one before the transaction.
\<close>

fun run_writes :: "(db \<Rightarrow> error + db) list \<Rightarrow> db \<Rightarrow> error + db" where
  "run_writes [] d = Inr d"
| "run_writes (w # ws) d = (case w d of Inl e \<Rightarrow> Inl e | Inr d' \<Rightarrow> run_writes ws d')"

definition transaction :: "(db \<Rightarrow> error + db) list \<Rightarrow> db \<Rightarrow> (error + unit) \<times> db" where
  "transaction ws d = (case run_writes ws d of Inl e \<Rightarrow> (Inl e, d) | Inr d' \<Rightarrow> (Inr (), d'))"

text \<open>The relations a query includes: the party's venue and its tags.\<close>

definition tagsOf :: "db \<Rightarrow> string \<Rightarrow> Tag list" where
  "tagsOf d partyId =
     concat (map (\<lambda>pt. filter (\<lambda>t. slug t = pt_tagSlug pt) (tags d))
                 (filter (\<lambda>pt. pt_partyId pt = partyId) (partyTags d)))"

definition with_relations :: "db \<Rightarrow> PartyEvent \<Rightarrow> PartyWithRelations" where
  "with_relations d p =
     \<lparr>row = p,
      inc_venue = find (\<lambda>x. v_partyId x = p_id p) (venues d),
      inc_tags = tagsOf d (p_id p)\<rparr>"

section \<open>The party service\<close>

definition formatPartyResponse :: "PartyWithRelations \<Rightarrow> PartyResponse" where
  "formatPartyResponse party =
     \<lparr>r_id = p_id (row party),
      r_title = title (row party),
      r_description = description (row party),
      r_coverImageUrl = coverImageUrl (row party),
      r_startsAt = startsAt (row party),
      r_endsAt = endsAt (row party),
      r_status = status (row party),
      r_isPrivate = isPrivate (row party),
      r_accessCode = (if isPrivate (row party) then accessCode (row party) else None),
      r_maxAttendees = maxAttendees (row party),
      r_attendeesCount = attendeesCount (row party),
      r_host = hostId (row party),
      r_venue = inc_venue party,
      r_tags = map t_name (inc_tags party)\<rparr>"

subsection \<open>joinParty, leaveParty, joinByAccessCode\<close>

definition joinParty :: "db \<Rightarrow> string \<Rightarrow> string \<Rightarrow> string option \<Rightarrow> (error + unit) \<times> db" where
  "joinParty d partyId userId code =
     (case partyEvent_findUnique d partyId of
        None \<Rightarrow> (Inl (AppError ''Party not found'' 404), d)
      | Some party \<Rightarrow>
          if isPrivate party \<and> (\<not> truthy_string code \<or> code \<noteq> accessCode party)
          then (Inl (AppError ''Invalid access code'' 403), d)
          else if truthy_number (maxAttendees party)
                  \<and> attendeesCount party \<ge> the (maxAttendees party)
          then (Inl (AppError ''Party is full'' 400), d)
          else (case partyAttendee_findUnique d partyId userId of
                  Some existing \<Rightarrow> (Inl (AppError ''Already attending this party'' 400), d)
                | None \<Rightarrow>
                    transaction
                      [partyAttendee_create
                         \<lparr>a_partyId = partyId, a_userId = userId, role = ''guest''\<rparr>,
                       partyEvent_update partyId
                         (\<lambda>p. p\<lparr>attendeesCount := attendeesCount p + 1\<rparr>)] d))"

definition leaveParty :: "db \<Rightarrow> string \<Rightarrow> string \<Rightarrow> (error + unit) \<times> db" where
  "leaveParty d partyId userId =
     (case partyEvent_findUnique d partyId of
        None \<Rightarrow> (Inl (AppError ''Party not found'' 404), d)
      | Some party \<Rightarrow>
          if hostId party = userId
          then (Inl (AppError ''Host cannot leave the party'' 400), d)
          else (case partyAttendee_findUnique d partyId userId of
                  None \<Rightarrow> (Inl (AppError ''Not attending this party'' 400), d)
                | Some attendee \<Rightarrow>
                    transaction
                      [partyAttendee_delete attendee,
                       partyEvent_update partyId
                         (\<lambda>p. p\<lparr>attendeesCount := attendeesCount p - 1\<rparr>)] d))"

definition joinByAccessCode :: "db \<Rightarrow> string \<Rightarrow> string \<Rightarrow> (error + PartyResponse) \<times> db" where
  "joinByAccessCode d userId code =
     (case partyEvent_findUnique_accessCode d code of
        None \<Rightarrow> (Inl (AppError ''Invalid access code'' 404), d)
      | Some p \<Rightarrow>
          let party = with_relations d p in
          if truthy_number (maxAttendees p) \<and> attendeesCount p \<ge> the (maxAttendees p)
          then (Inl (AppError ''Party is full'' 400), d)
          else (case partyAttendee_findUnique d (p_id p) userId of
                  Some existing \<Rightarrow> (Inr (formatPartyResponse party), d)
                | None \<Rightarrow>
                    (case transaction
                            [partyAttendee_create
                               \<lparr>a_partyId = p_id p, a_userId = userId, role = ''guest''\<rparr>,
                             partyEvent_update (p_id p)
                               (\<lambda>q. q\<lparr>attendeesCount := attendeesCount q + 1\<rparr>)] d of
                       (Inl e, d') \<Rightarrow> (Inl e, d')
                     | (Inr u, d') \<Rightarrow> (Inr (formatPartyResponse party), d'))))"

subsection \<open>generateAccessCode\<close>

text \<open>
  \<^verbatim>\<open>Math.random()\<close> is an input of the model: \<open>random i\<close> is the value of the \<open>i\<close>-th call,
  a number in \<open>[0, 1)\<close> by the contract of the function. \<^verbatim>\<open>charAt\<close> outside the string
  is the empty string.
\<close>

definition chars :: string where
  "chars = ''ABCDEFGHIJKLMNOPQRSTUVWXYZ0123456789''"

definition charAt :: "string \<Rightarrow> int \<Rightarrow> string" where
  "charAt s i = (if 0 \<le> i \<and> i < int (length s) then [s ! nat i] else [])"

function generateAccessCode_loop :: "(nat \<Rightarrow> rat) \<Rightarrow> nat \<Rightarrow> string \<Rightarrow> string" where
  "generateAccessCode_loop random i code =
     (if i < 6
      then generateAccessCode_loop random (Suc i)
             (code @ charAt chars \<lfloor>random i * of_nat (length chars)\<rfloor>)
      else code)"
  by pat_completeness auto
termination
  by (relation "measure (\<lambda>(random, i, code). 6 - i)") auto

definition generateAccessCode :: "(nat \<Rightarrow> rat) \<Rightarrow> string" where
  "generateAccessCode random = generateAccessCode_loop random 0 []"

subsection \<open>attachTags\<close>

text \<open>
  \<^verbatim>\<open>name.toLowerCase().replace(/\s+/g, '-')\<close>, on ASCII: every maximal run of white space
  becomes one hyphen.
\<close>

definition toLowerCase_char :: "char \<Rightarrow> char" where
  "toLowerCase_char c =
     (case map_of (zip ''ABCDEFGHIJKLMNOPQRSTUVWXYZ'' ''abcdefghijklmnopqrstuvwxyz'') c of
        None \<Rightarrow> c | Some l \<Rightarrow> l)"

definition toLowerCase :: "string \<Rightarrow> string" where
  "toLowerCase s = map toLowerCase_char s"

definition isSpace :: "char \<Rightarrow> bool" where
  "isSpace c = (c \<in> set [CHR '' '', CHR 0x09, CHR 0x0A, CHR 0x0B, CHR 0x0C, CHR 0x0D])"

function replace_spaces :: "string \<Rightarrow> string" where
  "replace_spaces [] = []"
| "replace_spaces (c # cs) =
     (if isSpace c then CHR ''-'' # replace_spaces (dropWhile isSpace cs)
      else c # replace_spaces cs)"
  by pat_completeness auto
termination
  by (relation "measure length") (auto simp: length_dropWhile_le less_Suc_eq_le)

definition slugify :: "string \<Rightarrow> string" where
  "slugify name = replace_spaces (toLowerCase name)"

definition tag_upsert :: "string \<Rightarrow> string \<Rightarrow> db \<Rightarrow> db" where
  "tag_upsert sl name d =
     (case find (\<lambda>t. slug t = sl) (tags d) of
        None \<Rightarrow>
          d\<lparr>tags := tags d @ [\<lparr>t_name = name, slug = sl, usageCount = usageCount_default d\<rparr>]\<rparr>
      | Some existing \<Rightarrow>
          d\<lparr>tags := map (\<lambda>t. if slug t = sl then t\<lparr>usageCount := usageCount t + 1\<rparr> else t)
                        (tags d)\<rparr>)"

definition partyTag_upsert :: "string \<Rightarrow> string \<Rightarrow> db \<Rightarrow> db" where
  "partyTag_upsert partyId sl d =
     (case find (\<lambda>pt. pt_partyId pt = partyId \<and> pt_tagSlug pt = sl) (partyTags d) of
        None \<Rightarrow> d\<lparr>partyTags := partyTags d @ [\<lparr>pt_partyId = partyId, pt_tagSlug = sl\<rparr>]\<rparr>
      | Some existing \<Rightarrow> d)"

fun attachTags :: "db \<Rightarrow> string \<Rightarrow> string list \<Rightarrow> db" where
  "attachTags d partyId [] = d"
| "attachTags d partyId (name # tagNames) =
     attachTags (partyTag_upsert partyId (slugify name) (tag_upsert (slugify name) name d))
       partyId tagNames"

subsection \<open>createParty\<close>

text \<open>
  \<^verbatim>\<open>createParty\<close> awaits its writes one after the other, outside any transaction: the party
  row (with its venue, a nested write of the same statement), the host's attendee row,
  the chat room, then the tags. An awaited call can be rejected by the store (a broken
  connection, a constraint); the exception then leaves the function and the earlier
  writes stay. \<open>store_fault\<close> names the call that the store rejects, if any. The id of
  the new row is generated by the store and is an input of the model.
\<close>

datatype store_fault = NoFault | AtPartyCreate | AtAttendeeCreate | AtChatRoomCreate

definition venue_create :: "string \<Rightarrow> VenueInput option \<Rightarrow> db \<Rightarrow> error + db" where
  "venue_create partyId v d =
     (case v of
        None \<Rightarrow> Inr d
      | Some vi \<Rightarrow>
          if find (\<lambda>x. v_partyId x = partyId) (venues d) \<noteq> None
          then Inl PrismaClientKnownRequestError
          else Inr (d\<lparr>venues := venues d @
                 [\<lparr>v_partyId = partyId, v_name = vi_name vi, v_address = vi_address vi\<rparr>]\<rparr>))"

text \<open>The \<^verbatim>\<open>data\<close> object of \<^verbatim>\<open>prisma.partyEvent.create\<close>: the row that is inserted.\<close>

definition createParty_data ::
  "(nat \<Rightarrow> rat) \<Rightarrow> string \<Rightarrow> db \<Rightarrow> string \<Rightarrow> CreatePartyInput \<Rightarrow> PartyEvent" where
  "createParty_data random newId d host data =
     \<lparr>p_id = newId, hostId = host, title = c_title data,
      description = c_description data, coverImageUrl = c_coverImageUrl data,
      startsAt = c_startsAt data, endsAt = c_endsAt data, status = PLANNED,
      isPrivate = c_isPrivate data,
      accessCode = (if c_isPrivate data then Some (generateAccessCode random) else None),
      maxAttendees = c_maxAttendees data,
      attendeesCount = attendeesCount_default d\<rparr>"

definition createParty ::
  "store_fault \<Rightarrow> (nat \<Rightarrow> rat) \<Rightarrow> string \<Rightarrow> db \<Rightarrow> string \<Rightarrow> CreatePartyInput
     \<Rightarrow> (error + PartyResponse) \<times> db" where
  "createParty fault random newId d host data =
     (let p = createParty_data random newId d host data
      in if fault = AtPartyCreate then (Inl OtherError, d)
         else (case run_writes [partyEvent_create p, venue_create newId (c_venue data)] d of
                 Inl e \<Rightarrow> (Inl e, d)
               | Inr d1 \<Rightarrow>
                   let party = with_relations d1 p in
                   if fault = AtAttendeeCreate then (Inl OtherError, d1)
                   else (case partyAttendee_create
                                \<lparr>a_partyId = newId, a_userId = host, role = ''host''\<rparr> d1 of
                           Inl e \<Rightarrow> (Inl e, d1)
                         | Inr d2 \<Rightarrow>
                             if fault = AtChatRoomCreate then (Inl OtherError, d2)
                             else (case chatRoom_create newId d2 of
                                     Inl e \<Rightarrow> (Inl e, d2)
                                   | Inr d3 \<Rightarrow>
                                       (Inr (formatPartyResponse party),
                                        (case c_tags data of
                                           None \<Rightarrow> d3
                                         | Some tagNames \<Rightarrow>
                                             if length tagNames > 0
                                             then attachTags d3 newId tagNames
                                             else d3))))))"

subsection \<open>updateParty\<close>

definition apply_update :: "UpdatePartyInput \<Rightarrow> PartyEvent \<Rightarrow> PartyEvent" where
  "apply_update data p =
     p\<lparr>title := (if truthy_string (u_title data) then the (u_title data) else title p),
       description := (case u_description data of None \<Rightarrow> description p | Some x \<Rightarrow> Some x),
       coverImageUrl := (if truthy_string (u_coverImageUrl data) then u_coverImageUrl data
                         else coverImageUrl p),
       startsAt := (case u_startsAt data of None \<Rightarrow> startsAt p | Some t \<Rightarrow> t),
       endsAt := (case u_endsAt data of None \<Rightarrow> endsAt p | Some t \<Rightarrow> Some t),
       isPrivate := (case u_isPrivate data of None \<Rightarrow> isPrivate p | Some b \<Rightarrow> b),
       maxAttendees := (if truthy_number (u_maxAttendees data) then u_maxAttendees data
                        else maxAttendees p),
       status := (case u_status data of None \<Rightarrow> status p | Some s \<Rightarrow> s)\<rparr>"

definition updateParty ::
  "db \<Rightarrow> string \<Rightarrow> string \<Rightarrow> UpdatePartyInput \<Rightarrow> (error + PartyResponse) \<times> db" where
  "updateParty d partyId host data =
     (case partyEvent_findUnique d partyId of
        None \<Rightarrow> (Inl (AppError ''Party not found'' 404), d)
      | Some party \<Rightarrow>
          if hostId party \<noteq> host
          then (Inl (AppError ''Only the host can update the party'' 403), d)
          else (case partyEvent_update partyId (apply_update data) d of
                  Inl e \<Rightarrow> (Inl e, d)
                | Inr d1 \<Rightarrow>
                    let updatedParty = with_relations d1 (apply_update data party) in
                    (Inr (formatPartyResponse updatedParty),
                     (case u_venue data of
                        None \<Rightarrow> d1
                      | Some v \<Rightarrow> venue_upsert partyId v d1))))"

subsection \<open>listParties\<close>

text \<open>
  The \<^verbatim>\<open>where\<close> object is built key by key; \<^verbatim>\<open>upcoming\<close> overwrites the \<^verbatim>\<open>status\<close> key
  set by the status filter, and \<^verbatim>\<open>isPrivate\<close> is always set to \<^verbatim>\<open>false\<close>.
  \<^verbatim>\<open>contains\<close> with \<^verbatim>\<open>mode: 'insensitive'\<close> is a substring test that ignores case.
\<close>

record partyWhere =
  w_status :: "PartyStatus list option"
  w_hostId :: "string option"
  w_search :: "string option"
  w_startsAt_gte :: "int option"
  w_isPrivate :: "bool option"

fun startsWith :: "string \<Rightarrow> string \<Rightarrow> bool" where
  "startsWith s [] = True"
| "startsWith [] (c # cs) = False"
| "startsWith (x # xs) (c # cs) = (x = c \<and> startsWith xs cs)"

fun includes_string :: "string \<Rightarrow> string \<Rightarrow> bool" where
  "includes_string [] sub = startsWith [] sub"
| "includes_string (x # xs) sub = (startsWith (x # xs) sub \<or> includes_string xs sub)"

definition contains_insensitive :: "string \<Rightarrow> string \<Rightarrow> bool" where
  "contains_insensitive s sub = includes_string (toLowerCase s) (toLowerCase sub)"

definition listParties_where :: "int \<Rightarrow> ListPartiesInput \<Rightarrow> partyWhere" where
  "listParties_where now filters =
     (let w0 = \<lparr>w_status = None, w_hostId = None, w_search = None,
                w_startsAt_gte = None, w_isPrivate = None\<rparr>;
          w1 = (case f_status filters of None \<Rightarrow> w0 | Some s \<Rightarrow> w0\<lparr>w_status := Some [s]\<rparr>);
          w2 = (if truthy_string (f_hostId filters) then w1\<lparr>w_hostId := f_hostId filters\<rparr>
                else w1);
          w3 = (if truthy_string (f_search filters) then w2\<lparr>w_search := f_search filters\<rparr>
                else w2);
          w4 = (if f_upcoming filters = Some True
                then w3\<lparr>w_startsAt_gte := Some now, w_status := Some [PLANNED, LIVE]\<rparr>
                else w3)
      in w4\<lparr>w_isPrivate := Some False\<rparr>)"

definition matches_where :: "partyWhere \<Rightarrow> PartyEvent \<Rightarrow> bool" where
  "matches_where w p =
     ((case w_status w of None \<Rightarrow> True | Some ss \<Rightarrow> status p \<in> set ss)
      \<and> (case w_hostId w of None \<Rightarrow> True | Some h \<Rightarrow> hostId p = h)
      \<and> (case w_search w of None \<Rightarrow> True
          | Some q \<Rightarrow> contains_insensitive (title p) q
                      \<or> (case description p of None \<Rightarrow> False
                          | Some t \<Rightarrow> contains_insensitive t q))
      \<and> (case w_startsAt_gte w of None \<Rightarrow> True | Some t \<Rightarrow> startsAt p \<ge> t)
      \<and> (case w_isPrivate w of None \<Rightarrow> True | Some b \<Rightarrow> isPrivate p = b))"

text \<open>
  \<^verbatim>\<open>findMany\<close> with \<^verbatim>\<open>orderBy: {startsAt: 'asc'}\<close>, \<^verbatim>\<open>skip\<close> and \<^verbatim>\<open>take\<close>; the store
  rejects a negative \<^verbatim>\<open>skip\<close>. Rows with equal \<^verbatim>\<open>startsAt\<close> keep their insertion order.
\<close>

definition listParties ::
  "int \<Rightarrow> db \<Rightarrow> ListPartiesInput \<Rightarrow> error + (PartyResponse list \<times> nat)" where
  "listParties now d filters =
     (let skip = (int (page filters) - 1) * int (limit filters);
          w = listParties_where now filters;
          found = filter (matches_where w) (partyEvents d)
      in if skip < 0 then Inl OtherError
         else Inr (map (\<lambda>p. formatPartyResponse (with_relations d p))
                     (take (limit filters) (drop (nat skip) (sort_key startsAt found))),
                   length found))"

subsection \<open>Sequences of attendance calls\<close>

text \<open>
  A request that ends in an error leaves the store as the function left it; the next
  request runs on that store.
\<close>

datatype call =
    JoinParty string string "string option"
  | LeaveParty string string
  | JoinByAccessCode string string

fun exec_call :: "db \<Rightarrow> call \<Rightarrow> db" where
  "exec_call d (JoinParty partyId userId code) = snd (joinParty d partyId userId code)"
| "exec_call d (LeaveParty partyId userId) = snd (leaveParty d partyId userId)"
| "exec_call d (JoinByAccessCode userId code) = snd (joinByAccessCode d userId code)"

fun exec_calls :: "db \<Rightarrow> call list \<Rightarrow> db" where
  "exec_calls d [] = d"
| "exec_calls d (c # cs) = exec_calls (exec_call d c) cs"

text \<open>
  The headcount of a party and its roster, compared: \<open>count_offset k d partyId\<close> says that
  the party exists and that its \<^verbatim>\<open>attendeesCount\<close> is the number of its attendee rows
  plus \<open>k\<close>.
\<close>

definition count_offset :: "int \<Rightarrow> db \<Rightarrow> string \<Rightarrow> bool" where
  "count_offset k d partyId =
     (case partyEvent_findUnique d partyId of
        None \<Rightarrow> False
      | Some p \<Rightarrow> attendeesCount p = int (partyAttendee_count d partyId) + k)"

text \<open>
  The id that the store generates for a new party is fresh: no party, attendee row, chat
  room or venue carries it yet.
\<close>

definition fresh_id :: "db \<Rightarrow> string \<Rightarrow> bool" where
  "fresh_id d newId =
     (partyEvent_findUnique d newId = None \<and> partyAttendee_count d newId = 0
      \<and> newId \<notin> set (chatRooms d) \<and> find (\<lambda>x. v_partyId x = newId) (venues d) = None)"

text \<open>
  Two invariants of the stores that the service produces: party ids are unique (the
  primary key), and no stored access code is the empty string.
\<close>

definition primary_key :: "db \<Rightarrow> bool" where
  "primary_key d = distinct (map p_id (partyEvents d))"

definition codes_nonempty :: "db \<Rightarrow> bool" where
  "codes_nonempty d = list_all (\<lambda>p. accessCode p \<noteq> Some []) (partyEvents d)"

section \<open>Example stores\<close>

text \<open>
  Four parties: \<open>p1\<close>, private and full; \<open>p2\<close>, public and ended; \<open>p3\<close>, private with
  places left; \<open>p4\<close>, public and planned.
\<close>

definition ex_private :: PartyEvent where
  "ex_private = \<lparr>p_id = ''p1'', hostId = ''alice'', title = ''Gala'', description = None,
     coverImageUrl = None, startsAt = 100, endsAt = None, status = PLANNED, isPrivate = True,
     accessCode = Some ''ABC123'', maxAttendees = Some 1, attendeesCount = 1\<rparr>"

definition ex_public :: PartyEvent where
  "ex_public = \<lparr>p_id = ''p2'', hostId = ''alice'', title = ''Picnic'', description = None,
     coverImageUrl = None, startsAt = 50, endsAt = None, status = ENDED, isPrivate = False,
     accessCode = None, maxAttendees = None, attendeesCount = 2\<rparr>"

definition ex_roomy :: PartyEvent where
  "ex_roomy = \<lparr>p_id = ''p3'', hostId = ''carol'', title = ''Soiree'', description = None,
     coverImageUrl = None, startsAt = 70, endsAt = None, status = LIVE, isPrivate = True,
     accessCode = Some ''XYZ789'', maxAttendees = Some 5, attendeesCount = 2\<rparr>"

definition ex_open :: PartyEvent where
  "ex_open = \<lparr>p_id = ''p4'', hostId = ''alice'', title = ''Brunch'', description = None,
     coverImageUrl = None, startsAt = 30, endsAt = None, status = PLANNED, isPrivate = False,
     accessCode = None, maxAttendees = None, attendeesCount = 1\<rparr>"

definition ex_store :: db where
  "ex_store = \<lparr>partyEvents = [ex_private, ex_public, ex_roomy, ex_open],
     partyAttendees = [\<lparr>a_partyId = ''p1'', a_userId = ''alice'', role = ''host''\<rparr>,
                       \<lparr>a_partyId = ''p2'', a_userId = ''alice'', role = ''host''\<rparr>,
                       \<lparr>a_partyId = ''p2'', a_userId = ''bob'', role = ''guest''\<rparr>,
                       \<lparr>a_partyId = ''p3'', a_userId = ''carol'', role = ''host''\<rparr>,
                       \<lparr>a_partyId = ''p3'', a_userId = ''dave'', role = ''guest''\<rparr>,
                       \<lparr>a_partyId = ''p4'', a_userId = ''alice'', role = ''host''\<rparr>],
     chatRooms = [''p1'', ''p2'', ''p3'', ''p4''], venues = [], tags = [], partyTags = [],
     attendeesCount_default = 1, usageCount_default = 1\<rparr>"

definition ex_empty :: db where
  "ex_empty = \<lparr>partyEvents = [], partyAttendees = [], chatRooms = [], venues = [], tags = [],
     partyTags = [], attendeesCount_default = 1, usageCount_default = 1\<rparr>"


definition ex_random :: "nat \<Rightarrow> rat" where
  "ex_random i = 0"

definition ex_input :: CreatePartyInput where
  "ex_input = \<lparr>c_title = ''Gala'', c_description = None, c_coverImageUrl = None,
     c_startsAt = 100, c_endsAt = None, c_isPrivate = True, c_maxAttendees = None,
     c_venue = None, c_tags = None\<rparr>"


definition ex_patch :: UpdatePartyInput where
  "ex_patch = \<lparr>u_title = None, u_description = None, u_coverImageUrl = None,
     u_startsAt = None, u_endsAt = None, u_isPrivate = None, u_maxAttendees = None,
     u_status = Some LIVE, u_venue = None\<rparr>"

definition ex_filters :: ListPartiesInput where
  "ex_filters = \<lparr>page = 1, limit = 20, f_status = None, f_hostId = Some ''alice'',
     f_search = None, f_upcoming = Some True\<rparr>"

section \<open>Lemmas on the store\<close>

lemmas ex_defs = ex_private_def ex_public_def ex_roomy_def ex_open_def ex_store_def

lemmas service_defs = joinParty_def leaveParty_def joinByAccessCode_def transaction_def
  partyEvent_findUnique_def partyEvent_findUnique_accessCode_def partyAttendee_findUnique_def
  partyAttendee_count_def partyAttendee_create_def partyEvent_update_def partyAttendee_delete_def
  truthy_string_def truthy_number_def formatPartyResponse_def with_relations_def tagsOf_def

lemma find_map_update:
  assumes "\<And>p. p_id (f p) = p_id p"
  shows "find (\<lambda>p. p_id p = q) (map (\<lambda>p. if p_id p = r then f p else p) ps) =
         map_option (\<lambda>p. if p_id p = r then f p else p) (find (\<lambda>p. p_id p = q) ps)"
  using assms by (induction ps) auto

lemma partyEvent_update_find:
  assumes "partyEvent_update r f d = Inr d'" and "\<And>p. p_id (f p) = p_id p"
  shows "partyEvent_findUnique d' q =
         map_option (\<lambda>p. if q = r then f p else p) (partyEvent_findUnique d q)"
proof -
  from assms(1) have d': "d' = d\<lparr>partyEvents := map (\<lambda>p. if p_id p = r then f p else p) (partyEvents d)\<rparr>"
    by (auto simp: partyEvent_update_def split: if_splits)
  have "find (\<lambda>p. p_id p = q) (partyEvents d) = Some x \<Longrightarrow> p_id x = q" for x
    by (auto simp: find_Some_iff)
  then show ?thesis
    unfolding d' partyEvent_findUnique_def
    by (cases "find (\<lambda>p. p_id p = q) (partyEvents d)") (auto simp: find_map_update [OF assms(2)])
qed

lemma partyEvent_update_other:
  "partyEvent_update r f d = Inr d' \<Longrightarrow>
     partyAttendees d' = partyAttendees d \<and> chatRooms d' = chatRooms d \<and> venues d' = venues d
     \<and> tags d' = tags d \<and> partyTags d' = partyTags d"
  by (auto simp: partyEvent_update_def split: if_splits)

lemma transaction_join:
  assumes "partyAttendee_findUnique d partyId userId = None"
      and "partyEvent_findUnique d partyId = Some p"
  shows "transaction
           [partyAttendee_create \<lparr>a_partyId = partyId, a_userId = userId, role = r\<rparr>,
            partyEvent_update partyId f] d =
         (Inr (), d\<lparr>partyAttendees := partyAttendees d @ [\<lparr>a_partyId = partyId, a_userId = userId, role = r\<rparr>],
                    partyEvents := map (\<lambda>p. if p_id p = partyId then f p else p) (partyEvents d)\<rparr>)"
  using assms
  by (simp add: transaction_def partyAttendee_create_def partyEvent_update_def
        partyEvent_findUnique_def partyAttendee_findUnique_def)


lemma joinParty_shape:
  assumes "joinParty d partyId userId code = (r, d')"
  shows "d' = d \<or>
         (r = Inr () \<and> partyEvent_findUnique d partyId \<noteq> None \<and>
          d' = d\<lparr>partyAttendees := partyAttendees d @
                     [\<lparr>a_partyId = partyId, a_userId = userId, role = ''guest''\<rparr>],
                  partyEvents := map (\<lambda>p. if p_id p = partyId
                       then p\<lparr>attendeesCount := attendeesCount p + 1\<rparr> else p) (partyEvents d)\<rparr>)"
  using assms
  by (auto simp: joinParty_def transaction_join split: option.splits if_splits)

lemma joinByAccessCode_shape:
  assumes "joinByAccessCode d userId code = (r, d')"
  shows "d' = d \<or>
         (\<exists>p. partyEvent_findUnique_accessCode d code = Some p \<and>
              partyAttendee_findUnique d (p_id p) userId = None \<and>
              r = Inr (formatPartyResponse (with_relations d p)) \<and>
          d' = d\<lparr>partyAttendees := partyAttendees d @
                     [\<lparr>a_partyId = p_id p, a_userId = userId, role = ''guest''\<rparr>],
                  partyEvents := map (\<lambda>q. if p_id q = p_id p
                       then q\<lparr>attendeesCount := attendeesCount q + 1\<rparr> else q) (partyEvents d)\<rparr>)"
proof (cases "partyEvent_findUnique_accessCode d code")
  case None
  with assms show ?thesis by (simp add: joinByAccessCode_def)
next
  case (Some p)
  then have "p \<in> set (partyEvents d)"
    by (auto simp: partyEvent_findUnique_accessCode_def find_Some_iff)
  then have "find (\<lambda>q. p_id q = p_id p) (partyEvents d) \<noteq> None"
    by (auto simp: find_None_iff)
  then obtain p' where p': "partyEvent_findUnique d (p_id p) = Some p'"
    by (auto simp: partyEvent_findUnique_def)
  show ?thesis
    using assms Some transaction_join [OF _ p']
    by (auto simp: joinByAccessCode_def Let_def split: option.splits if_splits)
qed

lemma leaveParty_shape:
  assumes "leaveParty d partyId userId = (r, d')"
  shows "d' = d \<or>
         (\<exists>a. r = Inr () \<and> a \<in> set (partyAttendees d) \<and> a_partyId a = partyId \<and>
              partyEvent_findUnique d partyId \<noteq> None \<and>
          d' = d\<lparr>partyAttendees := remove1 a (partyAttendees d),
                  partyEvents := map (\<lambda>p. if p_id p = partyId
                       then p\<lparr>attendeesCount := attendeesCount p - 1\<rparr> else p) (partyEvents d)\<rparr>)"
proof (cases "partyEvent_findUnique d partyId")
  case None
  with assms show ?thesis by (simp add: leaveParty_def)
next
  case (Some p)
  show ?thesis
  proof (cases "partyAttendee_findUnique d partyId userId")
    case None
    with assms Some show ?thesis by (auto simp: leaveParty_def split: if_splits)
  next
    case (Some a)
    then have a: "a \<in> set (partyAttendees d)" "a_partyId a = partyId"
      by (auto simp: partyAttendee_findUnique_def find_Some_iff)
    have "transaction [partyAttendee_delete a, partyEvent_update partyId f] d =
          (Inr (), d\<lparr>partyAttendees := remove1 a (partyAttendees d),
                  partyEvents := map (\<lambda>p. if p_id p = partyId then f p else p) (partyEvents d)\<rparr>)" for f
      using a \<open>partyEvent_findUnique d partyId = Some p\<close>
      by (simp add: transaction_def partyAttendee_delete_def partyEvent_update_def
            partyEvent_findUnique_def)
    with assms Some \<open>partyEvent_findUnique d partyId = Some p\<close> a show ?thesis
      by (auto simp: leaveParty_def split: if_splits)
  qed
qed

lemma find_id_Some: "find (\<lambda>p. p_id p = q) ps = Some x \<Longrightarrow> p_id x = q"
  by (auto simp: find_Some_iff)

lemma findUnique_after_update:
  assumes "\<And>p. p_id (f p) = p_id p"
  shows "partyEvent_findUnique
           (d\<lparr>partyAttendees := as,
              partyEvents := map (\<lambda>p. if p_id p = q then f p else p) (partyEvents d)\<rparr>) pid =
         map_option (\<lambda>p. if pid = q then f p else p) (partyEvent_findUnique d pid)"
  unfolding partyEvent_findUnique_def
  by (cases "find (\<lambda>p. p_id p = pid) (partyEvents d)")
     (auto simp: find_map_update [OF assms] dest: find_id_Some)

lemma count_offset_join:
  assumes "count_offset k d pid"
  shows "count_offset k (d\<lparr>partyAttendees := partyAttendees d @
                     [\<lparr>a_partyId = q, a_userId = u, role = r\<rparr>],
                  partyEvents := map (\<lambda>p. if p_id p = q
                       then p\<lparr>attendeesCount := attendeesCount p + 1\<rparr> else p) (partyEvents d)\<rparr>) pid"
proof -
  from assms obtain p where p: "partyEvent_findUnique d pid = Some p"
    and c: "attendeesCount p = int (partyAttendee_count d pid) + k"
    by (auto simp: count_offset_def split: option.splits)
  show ?thesis
    unfolding count_offset_def
    by (simp add: findUnique_after_update p) (simp add: partyAttendee_count_def c)
qed

lemma length_filter_remove1:
  "a \<in> set xs \<Longrightarrow> P a \<Longrightarrow> Suc (length (filter P (remove1 a xs))) = length (filter P xs)"
  by (induction xs) auto

lemma filter_remove1_other:
  "\<not> P a \<Longrightarrow> filter P (remove1 a xs) = filter P xs"
  by (induction xs) auto

lemma count_offset_leave:
  assumes "count_offset k d pid" and "a \<in> set (partyAttendees d)" and "a_partyId a = q"
  shows "count_offset k (d\<lparr>partyAttendees := remove1 a (partyAttendees d),
                  partyEvents := map (\<lambda>p. if p_id p = q
                       then p\<lparr>attendeesCount := attendeesCount p - 1\<rparr> else p) (partyEvents d)\<rparr>) pid"
    (is "count_offset k ?d' pid")
proof -
  from assms(1) obtain p where p: "partyEvent_findUnique d pid = Some p"
    and c: "attendeesCount p = int (partyAttendee_count d pid) + k"
    by (auto simp: count_offset_def split: option.splits)
  have f: "partyEvent_findUnique ?d' pid =
           Some (if pid = q then p\<lparr>attendeesCount := attendeesCount p - 1\<rparr> else p)"
    by (simp add: findUnique_after_update p)
  have n: "int (partyAttendee_count ?d' pid) =
           (if pid = q then int (partyAttendee_count d pid) - 1
            else int (partyAttendee_count d pid))"
    using length_filter_remove1 [of a "partyAttendees d" "\<lambda>a. a_partyId a = pid"] assms(2,3)
    by (auto simp: partyAttendee_count_def filter_remove1_other)
  show ?thesis
    unfolding count_offset_def f using c n by auto
qed

lemma count_offset_exec_call:
  assumes "count_offset k d pid"
  shows "count_offset k (exec_call d c) pid"
proof (cases c)
  case (JoinParty partyId userId code)
  obtain r d' where e: "joinParty d partyId userId code = (r, d')" by force
  from joinParty_shape [OF e] assms show ?thesis
    unfolding JoinParty by (auto simp: e count_offset_join)
next
  case (LeaveParty partyId userId)
  obtain r d' where e: "leaveParty d partyId userId = (r, d')" by force
  from leaveParty_shape [OF e] assms show ?thesis
    unfolding LeaveParty by (auto simp: e count_offset_leave)
next
  case (JoinByAccessCode userId code)
  obtain r d' where e: "joinByAccessCode d userId code = (r, d')" by force
  from joinByAccessCode_shape [OF e] assms show ?thesis
    unfolding JoinByAccessCode by (auto simp: e count_offset_join)
qed

lemma count_offset_exec_calls:
  "count_offset k d pid \<Longrightarrow> count_offset k (exec_calls d cs) pid"
  by (induction cs arbitrary: d) (auto simp: count_offset_exec_call)


lemma tag_upsert_other:
  "partyEvents (tag_upsert sl name d) = partyEvents d \<and>
   partyAttendees (tag_upsert sl name d) = partyAttendees d \<and>
   chatRooms (tag_upsert sl name d) = chatRooms d \<and>
   venues (tag_upsert sl name d) = venues d \<and>
   partyTags (tag_upsert sl name d) = partyTags d"
  by (simp add: tag_upsert_def split: option.splits)

lemma partyTag_upsert_other:
  "partyEvents (partyTag_upsert pid sl d) = partyEvents d \<and>
   partyAttendees (partyTag_upsert pid sl d) = partyAttendees d \<and>
   chatRooms (partyTag_upsert pid sl d) = chatRooms d \<and>
   venues (partyTag_upsert pid sl d) = venues d \<and>
   tags (partyTag_upsert pid sl d) = tags d"
  by (simp add: partyTag_upsert_def split: option.splits)

lemma attachTags_other:
  "partyEvents (attachTags d pid names) = partyEvents d \<and>
   partyAttendees (attachTags d pid names) = partyAttendees d \<and>
   chatRooms (attachTags d pid names) = chatRooms d \<and>
   venues (attachTags d pid names) = venues d"
  by (induction d pid names rule: attachTags.induct)
     (simp_all add: tag_upsert_other partyTag_upsert_other)

lemma party_insert_shape:
  assumes "run_writes [partyEvent_create p, venue_create newId v] d = Inr d1"
  shows "partyEvent_findUnique d (p_id p) = None \<and>
         partyEvents d1 = partyEvents d @ [p] \<and>
         partyAttendees d1 = partyAttendees d \<and> chatRooms d1 = chatRooms d \<and>
         attendeesCount_default d1 = attendeesCount_default d"
  using assms
  by (auto simp: partyEvent_create_def venue_create_def split: if_splits option.splits sum.splits)

lemma createParty_shape:
  assumes "createParty fault random newId d host data = (Inr resp, d')"
  shows "fault = NoFault \<and> partyEvent_findUnique d newId = None \<and>
         partyAttendee_findUnique d newId host = None \<and> newId \<notin> set (chatRooms d) \<and>
         partyEvents d' = partyEvents d @ [createParty_data random newId d host data] \<and>
         partyAttendees d' = partyAttendees d @
            [\<lparr>a_partyId = newId, a_userId = host, role = ''host''\<rparr>] \<and>
         chatRooms d' = chatRooms d @ [newId] \<and>
         r_status resp = PLANNED \<and>
         r_isPrivate resp = c_isPrivate data \<and>
         r_accessCode resp = (if c_isPrivate data then Some (generateAccessCode random) else None) \<and>
         r_attendeesCount resp = attendeesCount_default d"
proof -
  let ?p = "createParty_data random newId d host data"
  from assms obtain d1 where d1: "run_writes [partyEvent_create ?p, venue_create newId (c_venue data)] d = Inr d1"
    by (auto simp: createParty_def createParty_data_def Let_def split: if_splits sum.splits)
  note s1 = party_insert_shape [OF d1]
  from assms d1 obtain d2 where d2: "partyAttendee_create \<lparr>a_partyId = newId, a_userId = host, role = ''host''\<rparr> d1 = Inr d2"
    by (auto simp: createParty_def createParty_data_def Let_def split: if_splits sum.splits)
  from assms d1 d2 obtain d3 where d3: "chatRoom_create newId d2 = Inr d3"
    by (auto simp: createParty_def createParty_data_def Let_def split: if_splits sum.splits)
  from assms d1 d2 d3 have nf: "fault = NoFault"
    by (cases fault) (auto simp: createParty_def createParty_data_def Let_def)
  from assms d1 d2 d3 nf have resp: "resp = formatPartyResponse (with_relations d1 ?p)"
    and d': "d' = d3 \<or> (\<exists>names. d' = attachTags d3 newId names)"
    by (auto simp: createParty_def createParty_data_def Let_def split: option.splits if_splits)
  from d2 have s2: "partyAttendee_findUnique d1 newId host = None"
     "d2 = d1\<lparr>partyAttendees := partyAttendees d1 @ [\<lparr>a_partyId = newId, a_userId = host, role = ''host''\<rparr>]\<rparr>"
    by (auto simp: partyAttendee_create_def split: if_splits)
  from d3 have s3: "newId \<notin> set (chatRooms d2)" "d3 = d2\<lparr>chatRooms := chatRooms d2 @ [newId]\<rparr>"
    by (auto simp: chatRoom_create_def split: if_splits)
  have a: "partyAttendee_findUnique d newId host = None"
    using s2(1) s1 by (simp add: partyAttendee_findUnique_def)
  have "partyEvents d' = partyEvents d3 \<and> partyAttendees d' = partyAttendees d3 \<and> chatRooms d' = chatRooms d3"
    using d' attachTags_other by auto
  with s1 s2 s3 a nf resp show ?thesis
    by (simp add: formatPartyResponse_def with_relations_def createParty_data_def)
qed


lemma charAt_random:
  assumes "0 \<le> r" and "r < 1"
  shows "\<exists>c \<in> set chars. charAt chars \<lfloor>r * of_nat (length chars)\<rfloor> = [c]"
proof -
  let ?n = "length chars"
  have n: "0 < ?n" by (simp add: chars_def)
  have lo: "0 \<le> \<lfloor>r * of_nat ?n\<rfloor>" using assms(1) by simp
  have "r * of_nat ?n < of_nat ?n" using assms(2) n by simp
  then have hi: "\<lfloor>r * of_nat ?n\<rfloor> < int ?n" by (simp add: floor_less_iff)
  from lo hi have "nat \<lfloor>r * of_nat ?n\<rfloor> < ?n" by linarith
  then have "chars ! nat \<lfloor>r * of_nat ?n\<rfloor> \<in> set chars" by (rule nth_mem)
  with lo hi show ?thesis by (auto simp: charAt_def)
qed

lemma generateAccessCode_loop_props:
  assumes "\<forall>j<6. 0 \<le> random j \<and> random j < 1" and "i \<le> 6"
  shows "length (generateAccessCode_loop random i code) = length code + (6 - i) \<and>
         set (generateAccessCode_loop random i code) \<subseteq> set code \<union> set chars"
  using assms
proof (induction random i code rule: generateAccessCode_loop.induct)
  case (1 random i code)
  show ?case
  proof (cases "i < 6")
    case True
    with "1.prems" obtain c where c: "c \<in> set chars"
      "charAt chars \<lfloor>random i * of_nat (length chars)\<rfloor> = [c]"
      using charAt_random [of "random i"] by auto
    from True "1.prems" "1.IH" [OF True]
    have "length (generateAccessCode_loop random (Suc i) (code @ [c])) =
            length (code @ [c]) + (6 - Suc i) \<and>
          set (generateAccessCode_loop random (Suc i) (code @ [c])) \<subseteq> set (code @ [c]) \<union> set chars"
      by (simp add: c)
    with True c show ?thesis
      by (subst (1 2) generateAccessCode_loop.simps) auto
  next
    case False
    with "1.prems" show ?thesis
      by (subst (1 2) generateAccessCode_loop.simps) auto
  qed
qed

lemma generateAccessCode_props:
  assumes "\<forall>j<6. 0 \<le> random j \<and> random j < 1"
  shows "length (generateAccessCode random) = 6 \<and> set (generateAccessCode random) \<subseteq> set chars"
  using generateAccessCode_loop_props [OF assms, of 0 "[]"]
  by (simp add: generateAccessCode_def)

lemma find_append:
  "find P (xs @ ys) = (case find P xs of None \<Rightarrow> find P ys | Some x \<Rightarrow> Some x)"
  by (induction xs) auto

lemma count_0_findUnique:
  "partyAttendee_count d partyId = 0 \<Longrightarrow> partyAttendee_findUnique d partyId userId = None"
  by (auto simp: partyAttendee_count_def partyAttendee_findUnique_def find_None_iff filter_empty_conv)

lemma format_fields:
  "r_isPrivate (formatPartyResponse (with_relations d p)) = isPrivate p \<and>
   r_startsAt (formatPartyResponse (with_relations d p)) = startsAt p \<and>
   r_status (formatPartyResponse (with_relations d p)) = status p \<and>
   r_attendeesCount (formatPartyResponse (with_relations d p)) = attendeesCount p"
  by (simp add: formatPartyResponse_def with_relations_def)

subsection \<open>createParty on a fresh id\<close>

lemma party_insert_succeeds:
  assumes "fresh_id d newId"
      and "c_isPrivate data \<Longrightarrow> partyEvent_findUnique_accessCode d (generateAccessCode random) = None"
  shows "\<exists>d1. run_writes [partyEvent_create (createParty_data random newId d host data),
                          venue_create newId (c_venue data)] d = Inr d1
              \<and> partyEvents d1 = partyEvents d @ [createParty_data random newId d host data]
              \<and> partyAttendees d1 = partyAttendees d \<and> chatRooms d1 = chatRooms d"
proof -
  let ?p = "createParty_data random newId d host data"
  let ?d0 = "d\<lparr>partyEvents := partyEvents d @ [?p]\<rparr>"
  have c: "partyEvent_create ?p d = Inr ?d0"
    using assms by (auto simp: partyEvent_create_def createParty_data_def fresh_id_def)
  have "\<exists>d1. venue_create newId (c_venue data) ?d0 = Inr d1
            \<and> partyEvents d1 = partyEvents d @ [?p]
            \<and> partyAttendees d1 = partyAttendees d \<and> chatRooms d1 = chatRooms d"
    using assms(1) by (cases "c_venue data") (auto simp: venue_create_def fresh_id_def)
  then obtain d1 where "venue_create newId (c_venue data) ?d0 = Inr d1"
    and "partyEvents d1 = partyEvents d @ [?p]"
    and "partyAttendees d1 = partyAttendees d" and "chatRooms d1 = chatRooms d" by blast
  then show ?thesis by (intro exI [of _ d1]) (simp add: c)
qed

lemma createParty_succeeds:
  assumes "fresh_id d newId"
      and "c_isPrivate data \<Longrightarrow> partyEvent_findUnique_accessCode d (generateAccessCode random) = None"
  shows "\<exists>resp d'. createParty NoFault random newId d host data = (Inr resp, d')"
proof -
  let ?p = "createParty_data random newId d host data"
  let ?h = "\<lparr>a_partyId = newId, a_userId = host, role = ''host''\<rparr>"
  from party_insert_succeeds [OF assms, where host = host]
  obtain d1 where w: "run_writes [partyEvent_create ?p, venue_create newId (c_venue data)] d = Inr d1"
    and a1: "partyAttendees d1 = partyAttendees d" and r1: "chatRooms d1 = chatRooms d" by blast
  have "partyAttendee_count d1 newId = 0"
    using assms(1) by (simp add: partyAttendee_count_def a1 fresh_id_def)
  then have "partyAttendee_findUnique d1 newId host = None" by (rule count_0_findUnique)
  then have a: "partyAttendee_create ?h d1 = Inr (d1\<lparr>partyAttendees := partyAttendees d1 @ [?h]\<rparr>)"
    by (simp add: partyAttendee_create_def)
  have r: "chatRoom_create newId (d1\<lparr>partyAttendees := partyAttendees d1 @ [?h]\<rparr>)
          = Inr (d1\<lparr>partyAttendees := partyAttendees d1 @ [?h],
                    chatRooms := chatRooms d1 @ [newId]\<rparr>)"
    using assms(1) by (simp add: chatRoom_create_def r1 fresh_id_def)
  show ?thesis
    by (simp add: createParty_def Let_def w a r del: run_writes.simps)
qed

lemma createParty_rejected_attendee:
  assumes "fresh_id d newId"
      and "c_isPrivate data \<Longrightarrow> partyEvent_findUnique_accessCode d (generateAccessCode random) = None"
  shows "\<exists>d'. createParty AtAttendeeCreate random newId d host data = (Inl OtherError, d')
           \<and> partyEvent_findUnique d' newId = Some (createParty_data random newId d host data)
           \<and> partyAttendees d' = partyAttendees d \<and> chatRooms d' = chatRooms d"
proof -
  let ?p = "createParty_data random newId d host data"
  from party_insert_succeeds [OF assms, where host = host]
  obtain d1 where w: "run_writes [partyEvent_create ?p, venue_create newId (c_venue data)] d = Inr d1"
    and p1: "partyEvents d1 = partyEvents d @ [?p]"
    and a1: "partyAttendees d1 = partyAttendees d" and r1: "chatRooms d1 = chatRooms d" by blast
  have e: "createParty AtAttendeeCreate random newId d host data = (Inl OtherError, d1)"
    by (simp add: createParty_def Let_def w del: run_writes.simps)
  have f: "partyEvent_findUnique d1 newId = Some ?p"
    using assms(1)
    by (simp add: partyEvent_findUnique_def p1 find_append fresh_id_def createParty_data_def)
  from e f a1 r1 show ?thesis by simp
qed

lemma createParty_count_offset:
  assumes "createParty fault random newId d0 host data = (Inr resp, d1)"
      and "partyAttendee_count d0 newId = 0"
  shows "count_offset (attendeesCount_default d0 - 1) d1 newId"
proof -
  note s = createParty_shape [OF assms(1)]
  have f: "partyEvent_findUnique d1 newId = Some (createParty_data random newId d0 host data)"
    using s by (simp add: partyEvent_findUnique_def find_append createParty_data_def)
  have n: "partyAttendee_count d1 newId = 1"
    using s assms(2) by (simp add: partyAttendee_count_def)
  show ?thesis
    by (simp add: count_offset_def f n createParty_data_def)
qed

subsection \<open>updateParty and listParties\<close>

lemma venue_upsert_partyEvents: "partyEvents (venue_upsert pid v d) = partyEvents d"
  by (simp add: venue_upsert_def Let_def)

lemma apply_update_id: "p_id (apply_update data p) = p_id p"
  by (simp add: apply_update_def)

lemma listParties_where_props:
  "w_isPrivate (listParties_where now filters) = Some False \<and>
   (f_upcoming filters = Some True \<longrightarrow>
      w_status (listParties_where now filters) = Some [PLANNED, LIVE] \<and>
      w_startsAt_gte (listParties_where now filters) = Some now)"
  by (simp add: listParties_where_def Let_def split: option.splits)

lemma matches_where_listed:
  assumes "matches_where (listParties_where now filters) p"
  shows "\<not> isPrivate p"
    and "f_upcoming filters = Some True \<Longrightarrow> status p \<in> {PLANNED, LIVE} \<and> now \<le> startsAt p"
proof -
  from assms have "case w_isPrivate (listParties_where now filters) of None \<Rightarrow> True
                   | Some b \<Rightarrow> isPrivate p = b"
    by (simp add: matches_where_def)
  then show "\<not> isPrivate p" by (simp add: listParties_where_props)
next
  assume u: "f_upcoming filters = Some True"
  from assms have "(case w_status (listParties_where now filters) of None \<Rightarrow> True
                   | Some ss \<Rightarrow> status p \<in> set ss) \<and>
                   (case w_startsAt_gte (listParties_where now filters) of None \<Rightarrow> True
                   | Some t \<Rightarrow> startsAt p \<ge> t)"
    by (simp add: matches_where_def)
  with u show "status p \<in> {PLANNED, LIVE} \<and> now \<le> startsAt p"
    using listParties_where_props [of now filters] by simp
qed

subsection \<open>attachTags on a tag that is already attached\<close>

text \<open>
  Whatever the store, attaching a name a second time to the same party adds one to the
  usage count that the first attach left.
\<close>

lemma attachTags_again_increments:
  "map_option usageCount
     (find (\<lambda>t. slug t = slugify name)
        (tags (attachTags (attachTags d partyId [name]) partyId [name])))
   = map_option (\<lambda>n. n + 1)
       (map_option usageCount
          (find (\<lambda>t. slug t = slugify name) (tags (attachTags d partyId [name]))))
   \<and> find (\<lambda>t. slug t = slugify name) (tags (attachTags d partyId [name])) \<noteq> None"
proof -
  let ?s = "slugify name"
  let ?d1 = "attachTags d partyId [name]"
  have t1: "tags ?d1 = tags (tag_upsert ?s name d)"
    by (simp add: partyTag_upsert_other)
  have m: "find (\<lambda>t. slug t = s)
             (map (\<lambda>t. if slug t = s then t\<lparr>usageCount := usageCount t + 1\<rparr> else t) ts)
           = map_option (\<lambda>t. t\<lparr>usageCount := usageCount t + 1\<rparr>) (find (\<lambda>t. slug t = s) ts)"
    for s ts
    by (induction ts) auto
  have ex: "find (\<lambda>t. slug t = ?s) (tags ?d1) \<noteq> None"
  proof (cases "find (\<lambda>t. slug t = ?s) (tags d)")
    case None
    then have "tags (tag_upsert ?s name d)
                 = tags d @ [\<lparr>t_name = name, slug = ?s, usageCount = usageCount_default d\<rparr>]"
      by (simp add: tag_upsert_def)
    then show ?thesis unfolding t1 by (auto simp: find_None_iff)
  next
    case (Some e)
    then have "tags (tag_upsert ?s name d)
                 = map (\<lambda>t. if slug t = ?s then t\<lparr>usageCount := usageCount t + 1\<rparr> else t) (tags d)"
      by (simp add: tag_upsert_def)
    with Some show ?thesis unfolding t1 by (simp add: m)
  qed
  then obtain t where t: "find (\<lambda>t. slug t = ?s) (tags ?d1) = Some t" by auto
  have "tags (attachTags ?d1 partyId [name]) = tags (tag_upsert ?s name ?d1)"
    by (simp add: partyTag_upsert_other)
  also have "\<dots> = map (\<lambda>t. if slug t = ?s then t\<lparr>usageCount := usageCount t + 1\<rparr> else t) (tags ?d1)"
    using t by (simp add: tag_upsert_def)
  finally show ?thesis using t ex by (simp add: m)
qed

subsection \<open>Unique ids and non-empty access codes are kept\<close>

lemma primary_key_find:
  assumes "primary_key d" and "p \<in> set (partyEvents d)"
  shows "partyEvent_findUnique d (p_id p) = Some p"
proof -
  have "distinct (map p_id ps) \<Longrightarrow> p \<in> set ps \<Longrightarrow> find (\<lambda>q. p_id q = p_id p) ps = Some p" for ps
    by (induction ps) (auto simp: image_iff)
  with assms show ?thesis by (simp add: primary_key_def partyEvent_findUnique_def)
qed

lemma primary_key_accessCode:
  assumes "primary_key d" and "partyEvent_findUnique_accessCode d code = Some p"
  shows "partyEvent_findUnique d (p_id p) = Some p"
proof -
  from assms(2) have "p \<in> set (partyEvents d)"
    by (auto simp: partyEvent_findUnique_accessCode_def find_Some_iff)
  with assms(1) show ?thesis by (rule primary_key_find)
qed

lemma map_update_ids:
  assumes "\<And>p. p_id (f p) = p_id p"
  shows "map p_id (map (\<lambda>p. if p_id p = q then f p else p) ps) = map p_id ps"
  using assms by (induction ps) auto

lemma map_update_codes:
  assumes "\<And>p. accessCode (f p) = accessCode p"
  shows "map accessCode (map (\<lambda>p. if p_id p = q then f p else p) ps) = map accessCode ps"
  using assms by (induction ps) auto

lemma exec_call_keys:
  "map p_id (partyEvents (exec_call d c)) = map p_id (partyEvents d) \<and>
   map accessCode (partyEvents (exec_call d c)) = map accessCode (partyEvents d)"
proof (cases c)
  case (JoinParty partyId userId code)
  obtain r d' where e: "joinParty d partyId userId code = (r, d')" by force
  from joinParty_shape [OF e] show ?thesis
    unfolding JoinParty by (auto simp: e map_update_ids map_update_codes)
next
  case (LeaveParty partyId userId)
  obtain r d' where e: "leaveParty d partyId userId = (r, d')" by force
  from leaveParty_shape [OF e] show ?thesis
    unfolding LeaveParty by (auto simp: e map_update_ids map_update_codes)
next
  case (JoinByAccessCode userId code)
  obtain r d' where e: "joinByAccessCode d userId code = (r, d')" by force
  from joinByAccessCode_shape [OF e] show ?thesis
    unfolding JoinByAccessCode by (auto simp: e map_update_ids map_update_codes)
qed

lemma updateParty_keys:
  "map p_id (partyEvents (snd (updateParty d partyId host data))) = map p_id (partyEvents d) \<and>
   map accessCode (partyEvents (snd (updateParty d partyId host data)))
     = map accessCode (partyEvents d)"
proof -
  have i: "p_id (apply_update data p) = p_id p" for p by (simp add: apply_update_def)
  have c: "accessCode (apply_update data p) = accessCode p" for p by (simp add: apply_update_def)
  show ?thesis
    by (auto simp: updateParty_def partyEvent_update_def Let_def venue_upsert_partyEvents i c
          split: option.splits)
qed

lemma createParty_partyEvents:
  "partyEvents (snd (createParty fault random newId d host data)) = partyEvents d \<or>
   (partyEvent_findUnique d newId = None \<and>
    partyEvents (snd (createParty fault random newId d host data))
      = partyEvents d @ [createParty_data random newId d host data])"
proof (cases "run_writes [partyEvent_create (createParty_data random newId d host data),
                          venue_create newId (c_venue data)] d")
  case (Inl e)
  then show ?thesis by (simp add: createParty_def Let_def del: run_writes.simps)
next
  case (Inr d1)
  note s = party_insert_shape [OF Inr]
  have a: "partyAttendee_create h d1 = Inr d2 \<Longrightarrow> partyEvents d2 = partyEvents d1" for h d2
    by (auto simp: partyAttendee_create_def split: if_splits)
  have r: "chatRoom_create newId d2 = Inr d3 \<Longrightarrow> partyEvents d3 = partyEvents d2" for d2 d3
    by (auto simp: chatRoom_create_def split: if_splits)
  have "partyEvents (snd (createParty fault random newId d host data)) = partyEvents d \<or>
        partyEvents (snd (createParty fault random newId d host data)) = partyEvents d1"
    using Inr a r
    by (auto simp: createParty_def Let_def attachTags_other
          simp del: run_writes.simps split: sum.splits option.splits)
  with s show ?thesis by (auto simp: createParty_data_def)
qed

lemma primary_key_exec_call: "primary_key d \<Longrightarrow> primary_key (exec_call d c)"
  by (simp add: primary_key_def exec_call_keys)

lemma primary_key_updateParty:
  "primary_key d \<Longrightarrow> primary_key (snd (updateParty d partyId host data))"
  by (simp add: primary_key_def updateParty_keys)

lemma primary_key_createParty:
  assumes "primary_key d"
  shows "primary_key (snd (createParty fault random newId d host data))"
proof -
  have "partyEvent_findUnique d newId = None \<Longrightarrow> newId \<notin> set (map p_id (partyEvents d))"
    by (auto simp: partyEvent_findUnique_def find_None_iff)
  with assms createParty_partyEvents [of fault random newId d host data] show ?thesis
    by (auto simp: primary_key_def createParty_data_def)
qed

lemma codes_nonempty_exec_call: "codes_nonempty d \<Longrightarrow> codes_nonempty (exec_call d c)"
proof -
  have "codes_nonempty x = list_all (\<lambda>c. c \<noteq> Some []) (map accessCode (partyEvents x))" for x
    by (simp add: codes_nonempty_def list_all_iff)
  then show "codes_nonempty d \<Longrightarrow> codes_nonempty (exec_call d c)"
    by (simp add: exec_call_keys)
qed

lemma codes_nonempty_updateParty:
  "codes_nonempty d \<Longrightarrow> codes_nonempty (snd (updateParty d partyId host data))"
proof -
  have "codes_nonempty x = list_all (\<lambda>c. c \<noteq> Some []) (map accessCode (partyEvents x))" for x
    by (simp add: codes_nonempty_def list_all_iff)
  then show "codes_nonempty d \<Longrightarrow> codes_nonempty (snd (updateParty d partyId host data))"
    by (simp add: updateParty_keys)
qed

lemma codes_nonempty_createParty:
  assumes "codes_nonempty d" and "\<forall>j<6. 0 \<le> random j \<and> random j < 1"
  shows "codes_nonempty (snd (createParty fault random newId d host data))"
proof -
  from generateAccessCode_props [OF assms(2)] have "generateAccessCode random \<noteq> []" by auto
  then have "accessCode (createParty_data random newId d host data) \<noteq> Some []"
    by (simp add: createParty_data_def)
  with assms(1) createParty_partyEvents [of fault random newId d host data] show ?thesis
    by (auto simp: codes_nonempty_def)
qed

subsection \<open>The examples, evaluated\<close>

lemma ex_code: "generateAccessCode ex_random = ''AAAAAA''"
  by (simp add: generateAccessCode_def chars_def charAt_def ex_random_def)

lemma ex_empty_fresh: "fresh_id ex_empty ''p1''"
  by (simp add: fresh_id_def ex_empty_def partyEvent_findUnique_def partyAttendee_count_def)

lemma ex_code_unused:
  "partyEvent_findUnique_accessCode ex_empty (generateAccessCode ex_random) = None"
  by (simp add: ex_empty_def partyEvent_findUnique_accessCode_def)

lemma slugify_rock: "slugify ''rock'' = ''rock''"
  by (simp add: slugify_def toLowerCase_def toLowerCase_char_def isSpace_def)

section \<open>The claims\<close>

subsection \<open>C1: the headcount and the roster\<close>

text \<open>
  What the code keeps, for every column default: \<^verbatim>\<open>joinParty\<close>, \<^verbatim>\<open>leaveParty\<close> and
  \<^verbatim>\<open>joinByAccessCode\<close> change the headcount and the roster of a party together, and
  \<^verbatim>\<open>createParty\<close> inserts the host's attendee row while the counter stays at the column
  default. So after a successful \<^verbatim>\<open>createParty\<close> and any calls that follow, the headcount
  is the number of attendee rows plus the default minus one, and the response of
  \<^verbatim>\<open>createParty\<close> carries the default.
\<close>

lemma attendeesCount_offset_kept:
  assumes "createParty fault random newId d0 host data = (Inr resp, d1)"
      and "partyAttendee_count d0 newId = 0"
  shows "r_attendeesCount resp = attendeesCount_default d0 \<and>
         map_option attendeesCount (partyEvent_findUnique (exec_calls d1 calls) newId)
           = Some (int (partyAttendee_count (exec_calls d1 calls) newId)
                   + attendeesCount_default d0 - 1)"
proof -
  from createParty_count_offset [OF assms]
  have "count_offset (attendeesCount_default d0 - 1) (exec_calls d1 calls) newId"
    by (rule count_offset_exec_calls)
  moreover have "r_attendeesCount resp = attendeesCount_default d0"
    using createParty_shape [OF assms(1)] by simp
  ultimately show ?thesis
    by (auto simp: count_offset_def split: option.splits)
qed


subsection \<open>C2: creating a private party\<close>

text \<open>
  C2, as the code has it. When every store call succeeds (the generated id is fresh
  and the generated access code is not in use), \<^verbatim>\<open>createParty\<close> with \<^verbatim>\<open>isPrivate = true\<close>
  returns a party with status \<^verbatim>\<open>PLANNED\<close>, an access code of six characters of
  \<^verbatim>\<open>A-Z0-9\<close> and, for a column default of 1, \<^verbatim>\<open>attendeesCount = 1\<close>; the store then holds
  the party row, exactly one attendee row for the party, the host's, and one chat room.
  The three inserts are separate writes, not one atomic unit: when the store rejects the
  attendee insert, the party row stays, without attendee row and without chat room.
\<close>

theorem createParty_private:
  assumes "c_isPrivate data"
      and "\<forall>j<6. 0 \<le> random j \<and> random j < 1"
      and "fresh_id d newId"
      and "partyEvent_findUnique_accessCode d (generateAccessCode random) = None"
      and "attendeesCount_default d = 1"
  shows "(\<exists>resp d'. createParty NoFault random newId d host data = (Inr resp, d')
           \<and> r_status resp = PLANNED
           \<and> (\<exists>code. r_accessCode resp = Some code \<and> length code = 6 \<and> set code \<subseteq> set chars)
           \<and> r_attendeesCount resp = 1
           \<and> partyEvent_findUnique d' newId = Some (createParty_data random newId d host data)
           \<and> filter (\<lambda>a. a_partyId a = newId) (partyAttendees d')
                = [\<lparr>a_partyId = newId, a_userId = host, role = ''host''\<rparr>]
           \<and> filter (\<lambda>c. c = newId) (chatRooms d') = [newId])
         \<and> (\<exists>d'. createParty AtAttendeeCreate random newId d host data = (Inl OtherError, d')
           \<and> partyEvent_findUnique d' newId = Some (createParty_data random newId d host data)
           \<and> partyAttendees d' = partyAttendees d \<and> chatRooms d' = chatRooms d)"
proof -
  from createParty_succeeds [OF assms(3), of data random host] assms(4)
  obtain resp d' where e: "createParty NoFault random newId d host data = (Inr resp, d')"
    by auto
  note s = createParty_shape [OF e]
  have f: "partyEvent_findUnique d' newId = Some (createParty_data random newId d host data)"
    using s assms(3)
    by (simp add: partyEvent_findUnique_def fresh_id_def find_append createParty_data_def)
  have "filter (\<lambda>a. a_partyId a = newId) (partyAttendees d) = []"
    using assms(3) by (simp add: fresh_id_def partyAttendee_count_def)
  then have a: "filter (\<lambda>a. a_partyId a = newId) (partyAttendees d')
                = [\<lparr>a_partyId = newId, a_userId = host, role = ''host''\<rparr>]"
    using s by simp
  have "filter (\<lambda>c. c = newId) (chatRooms d) = []"
    using assms(3) by (auto simp: fresh_id_def filter_empty_conv)
  then have r: "filter (\<lambda>c. c = newId) (chatRooms d') = [newId]"
    using s by simp
  from e s f a r assms(1,5) generateAccessCode_props [OF assms(2)]
  have ok: "\<exists>resp d'. createParty NoFault random newId d host data = (Inr resp, d')
           \<and> r_status resp = PLANNED
           \<and> (\<exists>code. r_accessCode resp = Some code \<and> length code = 6 \<and> set code \<subseteq> set chars)
           \<and> r_attendeesCount resp = 1
           \<and> partyEvent_findUnique d' newId = Some (createParty_data random newId d host data)
           \<and> filter (\<lambda>a. a_partyId a = newId) (partyAttendees d')
                = [\<lparr>a_partyId = newId, a_userId = host, role = ''host''\<rparr>]
           \<and> filter (\<lambda>c. c = newId) (chatRooms d') = [newId]"
    by simp
  from createParty_rejected_attendee [OF assms(3), of data random host] assms(4)
  have "\<exists>d'. createParty AtAttendeeCreate random newId d host data = (Inl OtherError, d')
           \<and> partyEvent_findUnique d' newId = Some (createParty_data random newId d host data)
           \<and> partyAttendees d' = partyAttendees d \<and> chatRooms d' = chatRooms d"
    by simp
  with ok show ?thesis by (rule conjI)
qed

theorem createParty_private_witness:
  "c_isPrivate ex_input
   \<and> list_all (\<lambda>j. 0 \<le> ex_random j \<and> ex_random j < 1) [0, 1, 2, 3, 4, 5]
   \<and> fresh_id ex_empty ''p1''
   \<and> partyEvent_findUnique_accessCode ex_empty (generateAccessCode ex_random) = None
   \<and> attendeesCount_default ex_empty = 1
   \<and> (\<exists>resp d'. createParty NoFault ex_random ''p1'' ex_empty ''alice'' ex_input = (Inr resp, d')
           \<and> r_status resp = PLANNED
           \<and> (\<exists>code. r_accessCode resp = Some code \<and> length code = 6 \<and> set code \<subseteq> set chars)
           \<and> r_attendeesCount resp = 1
           \<and> partyEvent_findUnique d' ''p1''
                = Some (createParty_data ex_random ''p1'' ex_empty ''alice'' ex_input)
           \<and> filter (\<lambda>a. a_partyId a = ''p1'') (partyAttendees d')
                = [\<lparr>a_partyId = ''p1'', a_userId = ''alice'', role = ''host''\<rparr>]
           \<and> filter (\<lambda>c. c = ''p1'') (chatRooms d') = [''p1''])"
proof -
  have h1: "c_isPrivate ex_input" by (simp add: ex_input_def)
  have h2: "\<forall>j<6. 0 \<le> ex_random j \<and> ex_random j < 1" by (simp add: ex_random_def)
  have h5: "attendeesCount_default ex_empty = 1" by (simp add: ex_empty_def)
  have h2': "list_all (\<lambda>j. 0 \<le> ex_random j \<and> ex_random j < 1) [0, 1, 2, 3, 4, 5]"
    by (simp add: ex_random_def)
  from createParty_private [OF h1 h2 ex_empty_fresh ex_code_unused h5, of "''alice''"]
    h1 h2' ex_empty_fresh ex_code_unused h5
  show ?thesis by simp
qed

text \<open>
  The inserts are not atomic: with the attendee insert rejected, \<^verbatim>\<open>createParty\<close> ends in
  an error and the store holds the party row, no attendee row and no chat room.
\<close>

theorem createParty_not_atomic:
  "fst (createParty AtAttendeeCreate ex_random ''p1'' ex_empty ''alice'' ex_input) = Inl OtherError
   \<and> map_option p_id (partyEvent_findUnique
        (snd (createParty AtAttendeeCreate ex_random ''p1'' ex_empty ''alice'' ex_input)) ''p1'')
       = Some ''p1''
   \<and> partyAttendees (snd (createParty AtAttendeeCreate ex_random ''p1'' ex_empty ''alice'' ex_input))
       = []
   \<and> chatRooms (snd (createParty AtAttendeeCreate ex_random ''p1'' ex_empty ''alice'' ex_input))
       = []"
  by (simp add: createParty_def createParty_data_def ex_code ex_empty_def ex_input_def Let_def
        partyEvent_create_def venue_create_def partyEvent_findUnique_def
        partyEvent_findUnique_accessCode_def)

subsection \<open>C3: joining twice\<close>

text \<open>
  C3, as the code has it. When an attendee row exists for (party, user), \<^verbatim>\<open>joinParty\<close>
  fails and leaves the store unchanged. The checks run in the order access code,
  capacity, duplicate: the error is 403 "Invalid access code" for a private party and a
  wrong code, else 400 "Party is full" for a full party, else 400 "Already attending
  this party". The error handler sends the status of the error: 400 or 403, never 409.
\<close>

theorem joinParty_duplicate:
  assumes "partyEvent_findUnique d partyId = Some party"
      and "partyAttendee_findUnique d partyId userId = Some existing"
  shows "joinParty d partyId userId code =
           (Inl (if isPrivate party \<and> (\<not> truthy_string code \<or> code \<noteq> accessCode party)
                 then AppError ''Invalid access code'' 403
                 else if truthy_number (maxAttendees party)
                         \<and> attendeesCount party \<ge> the (maxAttendees party)
                 then AppError ''Party is full'' 400
                 else AppError ''Already attending this party'' 400), d)
         \<and> (\<forall>e. fst (joinParty d partyId userId code) = Inl e
               \<longrightarrow> fst (errorHandler e) = 400 \<or> fst (errorHandler e) = 403)"
proof -
  have "joinParty d partyId userId code =
           (Inl (if isPrivate party \<and> (\<not> truthy_string code \<or> code \<noteq> accessCode party)
                 then AppError ''Invalid access code'' 403
                 else if truthy_number (maxAttendees party)
                         \<and> attendeesCount party \<ge> the (maxAttendees party)
                 then AppError ''Party is full'' 400
                 else AppError ''Already attending this party'' 400), d)"
    using assms by (simp add: joinParty_def)
  then show ?thesis by auto
qed

theorem joinParty_duplicate_witness:
  "partyEvent_findUnique ex_store ''p2'' = Some ex_public
   \<and> partyAttendee_findUnique ex_store ''p2'' ''bob''
       = Some \<lparr>a_partyId = ''p2'', a_userId = ''bob'', role = ''guest''\<rparr>
   \<and> joinParty ex_store ''p2'' ''bob'' None
       = (Inl (AppError ''Already attending this party'' 400), ex_store)"
proof -
  have h1: "partyEvent_findUnique ex_store ''p2'' = Some ex_public"
    by (simp add: ex_defs partyEvent_findUnique_def)
  have h2: "partyAttendee_findUnique ex_store ''p2'' ''bob''
       = Some \<lparr>a_partyId = ''p2'', a_userId = ''bob'', role = ''guest''\<rparr>"
    by (simp add: ex_defs partyAttendee_findUnique_def)
  from joinParty_duplicate [OF h1 h2, of None] h1 h2
  show ?thesis by (simp add: ex_public_def truthy_number_def)
qed

text \<open>
  Bob attends the public party \<open>p2\<close> and joins it again: the error carries status 400,
  and the handler sends 400.
\<close>

theorem joinParty_duplicate_status_400:
  "partyAttendee_findUnique ex_store ''p2'' ''bob''
     = Some \<lparr>a_partyId = ''p2'', a_userId = ''bob'', role = ''guest''\<rparr>
   \<and> fst (joinParty ex_store ''p2'' ''bob'' None)
       = Inl (AppError ''Already attending this party'' 400)
   \<and> errorHandler (AppError ''Already attending this party'' 400)
       = (400, ''Already attending this party'')"
  by (simp add: ex_defs service_defs)

subsection \<open>C4: joining by access code when already attending\<close>

text \<open>
  C4, as the code has it. For a user who already attends the party of the access code,
  \<^verbatim>\<open>joinByAccessCode\<close> never changes the store; the capacity check comes before the
  duplicate check, so the call succeeds and returns the party when the party is not
  full, and fails with 400 "Party is full" when it is.
\<close>

theorem joinByAccessCode_attending:
  assumes "partyEvent_findUnique_accessCode d code = Some p"
      and "partyAttendee_findUnique d (p_id p) userId = Some existing"
  shows "joinByAccessCode d userId code =
           (if truthy_number (maxAttendees p) \<and> attendeesCount p \<ge> the (maxAttendees p)
            then Inl (AppError ''Party is full'' 400)
            else Inr (formatPartyResponse (with_relations d p)), d)"
  using assms by (simp add: joinByAccessCode_def Let_def)

theorem joinByAccessCode_attending_witness:
  "partyEvent_findUnique_accessCode ex_store ''XYZ789'' = Some ex_roomy
   \<and> partyAttendee_findUnique ex_store (p_id ex_roomy) ''dave''
       = Some \<lparr>a_partyId = ''p3'', a_userId = ''dave'', role = ''guest''\<rparr>
   \<and> joinByAccessCode ex_store ''dave'' ''XYZ789''
       = (Inr (formatPartyResponse (with_relations ex_store ex_roomy)), ex_store)"
proof -
  have h1: "partyEvent_findUnique_accessCode ex_store ''XYZ789'' = Some ex_roomy"
    by (simp add: ex_defs partyEvent_findUnique_accessCode_def)
  have h2: "partyAttendee_findUnique ex_store (p_id ex_roomy) ''dave''
       = Some \<lparr>a_partyId = ''p3'', a_userId = ''dave'', role = ''guest''\<rparr>"
    by (simp add: ex_defs partyAttendee_findUnique_def)
  from joinByAccessCode_attending [OF h1 h2] h1 h2
  show ?thesis by (simp add: ex_roomy_def truthy_number_def)
qed

text \<open>
  Alice hosts the private party \<open>p1\<close>, which is full (one place, one attendee): her
  \<^verbatim>\<open>joinByAccessCode\<close> with the right code raises "Party is full".
\<close>

theorem joinByAccessCode_attending_full_fails:
  "partyAttendee_findUnique ex_store ''p1'' ''alice''
     = Some \<lparr>a_partyId = ''p1'', a_userId = ''alice'', role = ''host''\<rparr>
   \<and> joinByAccessCode ex_store ''alice'' ''ABC123''
       = (Inl (AppError ''Party is full'' 400), ex_store)"
  by (simp add: ex_defs service_defs)

subsection \<open>C5: joining a full party\<close>

text \<open>
  C5, as the code has it. For a party whose \<^verbatim>\<open>maxAttendees\<close> is set (to a positive number,
  as the input schemas require) and reached, \<^verbatim>\<open>joinParty\<close> fails and leaves the store
  unchanged: with 400 "Party is full" for a caller who passes the access gate (a public
  party, or the stored code supplied), with 403 "Invalid access code" for a private
  party and another code, since the access gate comes first.
\<close>

theorem joinParty_full:
  assumes "partyEvent_findUnique d partyId = Some party"
      and "maxAttendees party = Some m" and "0 < m" and "attendeesCount party \<ge> m"
  shows "joinParty d partyId userId code =
           (Inl (if isPrivate party \<and> (\<not> truthy_string code \<or> code \<noteq> accessCode party)
                 then AppError ''Invalid access code'' 403
                 else AppError ''Party is full'' 400), d)"
  using assms by (auto simp: joinParty_def truthy_number_def)

theorem joinParty_full_witness:
  "partyEvent_findUnique ex_store ''p1'' = Some ex_private
   \<and> maxAttendees ex_private = Some 1 \<and> (0::int) < 1 \<and> attendeesCount ex_private \<ge> 1
   \<and> joinParty ex_store ''p1'' ''bob'' (Some ''ABC123'')
       = (Inl (AppError ''Party is full'' 400), ex_store)"
proof -
  have h1: "partyEvent_findUnique ex_store ''p1'' = Some ex_private"
    by (simp add: ex_defs partyEvent_findUnique_def)
  have h2: "maxAttendees ex_private = Some 1" by (simp add: ex_private_def)
  have h3: "(0::int) < 1" by simp
  have h4: "attendeesCount ex_private \<ge> 1" by (simp add: ex_private_def)
  from joinParty_full [OF h1 h2 h3 h4, of "''bob''" "Some ''ABC123''"] h1 h2 h4
  show ?thesis by (simp add: ex_private_def truthy_string_def)
qed

text \<open>
  Bob does not attend the private party \<open>p1\<close>, which is full; he joins with a wrong code
  and gets "Invalid access code", not "Party is full".
\<close>

theorem joinParty_full_wrong_code_forbidden:
  "partyEvent_findUnique ex_store ''p1'' = Some ex_private
   \<and> maxAttendees ex_private = Some 1 \<and> attendeesCount ex_private \<ge> 1
   \<and> partyAttendee_findUnique ex_store ''p1'' ''bob'' = None
   \<and> joinParty ex_store ''p1'' ''bob'' (Some ''ABC124'')
       = (Inl (AppError ''Invalid access code'' 403), ex_store)"
  by (simp add: ex_defs service_defs)

subsection \<open>C6: the access gate of a private party\<close>

text \<open>
  C6. For a private party, \<^verbatim>\<open>joinParty\<close> passes the access gate (does not raise 403
  "Invalid access code") if and only if a code is supplied and it equals the stored
  code; when it does not pass, the store is unchanged. The stored code is not the empty
  string: \<^verbatim>\<open>createParty\<close> only stores codes of six characters, and no other function
  writes the code (\<open>codes_nonempty\<close> is kept by every function of the service).
\<close>

theorem joinParty_access_gate:
  assumes "partyEvent_findUnique d partyId = Some party"
      and "isPrivate party" and "accessCode party \<noteq> Some []"
  shows "(fst (joinParty d partyId userId code) \<noteq> Inl (AppError ''Invalid access code'' 403))
           = (\<exists>c. code = Some c \<and> accessCode party = Some c)
         \<and> (fst (joinParty d partyId userId code) = Inl (AppError ''Invalid access code'' 403)
              \<longrightarrow> snd (joinParty d partyId userId code) = d)"
proof (cases "\<not> truthy_string code \<or> code \<noteq> accessCode party")
  case True
  with assms have "joinParty d partyId userId code = (Inl (AppError ''Invalid access code'' 403), d)"
    by (simp add: joinParty_def)
  moreover from True assms(3) have "\<not> (\<exists>c. code = Some c \<and> accessCode party = Some c)"
    by (auto simp: truthy_string_def)
  ultimately show ?thesis by simp
next
  case False
  then have eq: "\<exists>c. code = Some c \<and> accessCode party = Some c"
    by (cases code; cases "accessCode party") (auto simp: truthy_string_def)
  have "fst (joinParty d partyId userId code) \<noteq> Inl (AppError ''Invalid access code'' 403)"
    using assms(1) False
    by (cases "partyAttendee_findUnique d partyId userId")
       (auto simp: joinParty_def transaction_join)
  with eq show ?thesis by simp
qed

text \<open>
  On the private party \<open>p1\<close> with code \<open>ABC123\<close>: the code \<open>ABC124\<close> and no code at all
  are refused and leave the store unchanged; the stored code passes the gate.
\<close>

theorem joinParty_access_gate_witness:
  "partyEvent_findUnique ex_store ''p1'' = Some ex_private
   \<and> isPrivate ex_private \<and> accessCode ex_private \<noteq> Some []
   \<and> joinParty ex_store ''p1'' ''bob'' (Some ''ABC124'')
       = (Inl (AppError ''Invalid access code'' 403), ex_store)
   \<and> joinParty ex_store ''p1'' ''bob'' None
       = (Inl (AppError ''Invalid access code'' 403), ex_store)
   \<and> fst (joinParty ex_store ''p1'' ''bob'' (Some ''ABC123''))
       \<noteq> Inl (AppError ''Invalid access code'' 403)"
proof -
  have h1: "partyEvent_findUnique ex_store ''p1'' = Some ex_private"
    by (simp add: ex_defs partyEvent_findUnique_def)
  have h2: "isPrivate ex_private" by (simp add: ex_private_def)
  have h3: "accessCode ex_private \<noteq> Some []" by (simp add: ex_private_def)
  have c: "accessCode ex_private = Some ''ABC123''" by (simp add: ex_private_def)
  from joinParty_access_gate [OF h1 h2 h3, of "''bob''" "Some ''ABC124''"] c
  have a: "joinParty ex_store ''p1'' ''bob'' (Some ''ABC124'')
       = (Inl (AppError ''Invalid access code'' 403), ex_store)"
    by (simp add: prod_eq_iff)
  from joinParty_access_gate [OF h1 h2 h3, of "''bob''" None]
  have b: "joinParty ex_store ''p1'' ''bob'' None
       = (Inl (AppError ''Invalid access code'' 403), ex_store)"
    by (simp add: prod_eq_iff)
  from joinParty_access_gate [OF h1 h2 h3, of "''bob''" "Some ''ABC123''"] c
  have "fst (joinParty ex_store ''p1'' ''bob'' (Some ''ABC123''))
       \<noteq> Inl (AppError ''Invalid access code'' 403)"
    by simp
  with h1 h2 h3 a b show ?thesis by simp
qed

subsection \<open>C7: attaching a tag twice\<close>

text \<open>
  C7 asks that attaching the same tag name twice to the same party count the tag once
  and link it once. The code links it once, and counts it twice: the tag upsert
  increments \<^verbatim>\<open>usageCount\<close> whenever the slug exists, whether or not the party already
  carries the tag. On the empty store (default 1), the tag \<open>rock\<close> attached to \<open>p1\<close>
  twice has one association and a usage count of 2, in two calls or in one call with
  the name twice.
\<close>

theorem attachTags_twice_counts_twice:
  "tags (attachTags ex_empty ''p1'' [''rock''])
     = [\<lparr>t_name = ''rock'', slug = ''rock'', usageCount = 1\<rparr>]
   \<and> tags (attachTags (attachTags ex_empty ''p1'' [''rock'']) ''p1'' [''rock''])
     = [\<lparr>t_name = ''rock'', slug = ''rock'', usageCount = 2\<rparr>]
   \<and> partyTags (attachTags (attachTags ex_empty ''p1'' [''rock'']) ''p1'' [''rock''])
     = [\<lparr>pt_partyId = ''p1'', pt_tagSlug = ''rock''\<rparr>]
   \<and> tags (attachTags ex_empty ''p1'' [''rock'', ''rock''])
     = [\<lparr>t_name = ''rock'', slug = ''rock'', usageCount = 2\<rparr>]"
  by (simp add: ex_empty_def slugify_rock tag_upsert_def partyTag_upsert_def)

subsection \<open>C8: status changes\<close>

text \<open>
  C8, as the code has it. \<^verbatim>\<open>updateParty\<close> checks no transition: called by the host, it
  succeeds and stores the supplied status whatever the current one (any of the five
  values, also out of \<^verbatim>\<open>ENDED\<close> or \<^verbatim>\<open>CANCELLED\<close>), and keeps the current status when
  none is supplied.
\<close>

theorem updateParty_any_status:
  assumes "partyEvent_findUnique d partyId = Some party" and "hostId party = host"
  shows "(\<exists>resp. fst (updateParty d partyId host data) = Inr resp
            \<and> r_status resp = (case u_status data of None \<Rightarrow> status party | Some s \<Rightarrow> s))
         \<and> map_option status (partyEvent_findUnique (snd (updateParty d partyId host data)) partyId)
           = Some (case u_status data of None \<Rightarrow> status party | Some s \<Rightarrow> s)"
proof -
  let ?d1 = "d\<lparr>partyEvents := map (\<lambda>p. if p_id p = partyId then apply_update data p else p)
                                 (partyEvents d)\<rparr>"
  have u: "partyEvent_update partyId (apply_update data) d = Inr ?d1"
    using assms(1) by (simp add: partyEvent_update_def)
  have f: "partyEvent_findUnique ?d1 partyId = Some (apply_update data party)"
    using partyEvent_update_find [OF u apply_update_id, of partyId] assms(1) by simp
  have s: "status (apply_update data party)
             = (case u_status data of None \<Rightarrow> status party | Some s \<Rightarrow> s)"
    by (simp add: apply_update_def)
  have r: "fst (updateParty d partyId host data) =
             Inr (formatPartyResponse (with_relations ?d1 (apply_update data party)))"
    using assms u by (simp add: updateParty_def Let_def)
  have d': "partyEvents (snd (updateParty d partyId host data)) = partyEvents ?d1"
    using assms u
    by (cases "u_venue data") (simp_all add: updateParty_def Let_def venue_upsert_partyEvents)
  have "partyEvent_findUnique (snd (updateParty d partyId host data)) partyId
          = Some (apply_update data party)"
    using f by (simp add: partyEvent_findUnique_def d')
  with r s show ?thesis by (simp add: format_fields)
qed

theorem updateParty_any_status_witness:
  "partyEvent_findUnique ex_store ''p4'' = Some ex_open \<and> hostId ex_open = ''alice''
   \<and> (\<exists>resp. fst (updateParty ex_store ''p4'' ''alice'' ex_patch) = Inr resp
         \<and> r_status resp = LIVE)
   \<and> map_option status
        (partyEvent_findUnique (snd (updateParty ex_store ''p4'' ''alice'' ex_patch)) ''p4'')
       = Some LIVE"
proof -
  have h1: "partyEvent_findUnique ex_store ''p4'' = Some ex_open"
    by (simp add: ex_defs partyEvent_findUnique_def)
  have h2: "hostId ex_open = ''alice''" by (simp add: ex_open_def)
  from updateParty_any_status [OF h1 h2, of ex_patch] h1 h2
  show ?thesis by (simp add: ex_patch_def)
qed

text \<open>
  The party \<open>p2\<close> has ended; its host sets the status to \<^verbatim>\<open>LIVE\<close>, and the party is
  \<^verbatim>\<open>LIVE\<close>.
\<close>

theorem updateParty_leaves_ENDED:
  "map_option status (partyEvent_findUnique ex_store ''p2'') = Some ENDED
   \<and> isl (fst (updateParty ex_store ''p2'' ''alice'' ex_patch)) = False
   \<and> map_option status
        (partyEvent_findUnique (snd (updateParty ex_store ''p2'' ''alice'' ex_patch)) ''p2'')
       = Some LIVE"
  by (simp add: ex_defs ex_patch_def updateParty_def partyEvent_findUnique_def
        partyEvent_update_def apply_update_def truthy_string_def truthy_number_def Let_def)

subsection \<open>C9: listing parties\<close>

text \<open>
  C9. For every combination of filters (with a page number of at least 1, as the
  schema requires), \<^verbatim>\<open>listParties\<close> returns only parties that are not private, in
  ascending order of \<^verbatim>\<open>startsAt\<close>; with \<^verbatim>\<open>upcoming\<close>, every party returned has status
  \<^verbatim>\<open>PLANNED\<close> or \<^verbatim>\<open>LIVE\<close> and starts now or later, whatever the \<^verbatim>\<open>status\<close> and \<^verbatim>\<open>hostId\<close>
  filters say.
\<close>

theorem listParties_public_sorted:
  assumes "1 \<le> page filters"
  shows "\<exists>rs total. listParties now d filters = Inr (rs, total)
           \<and> (\<forall>r \<in> set rs. \<not> r_isPrivate r)
           \<and> sorted (map r_startsAt rs)
           \<and> (f_upcoming filters = Some True \<longrightarrow>
                (\<forall>r \<in> set rs. r_status r \<in> {PLANNED, LIVE} \<and> now \<le> r_startsAt r))"
proof -
  let ?w = "listParties_where now filters"
  let ?found = "filter (matches_where ?w) (partyEvents d)"
  let ?skip = "(int (page filters) - 1) * int (limit filters)"
  let ?ps = "take (limit filters) (drop (nat ?skip) (sort_key startsAt ?found))"
  let ?rs = "map (\<lambda>p. formatPartyResponse (with_relations d p)) ?ps"
  from assms have "\<not> ?skip < 0" by (simp add: zero_le_mult_iff not_less)
  then have res: "listParties now d filters = Inr (?rs, length ?found)"
    by (simp add: listParties_def Let_def)
  have sub: "set ?ps \<subseteq> set ?found"
    using set_take_subset set_drop_subset by fastforce
  have m: "p \<in> set ?ps \<Longrightarrow> matches_where ?w p" for p
    using sub by auto
  have priv: "\<forall>r \<in> set ?rs. \<not> r_isPrivate r"
  proof
    fix r assume "r \<in> set ?rs"
    then obtain p where p: "p \<in> set ?ps" and r: "r = formatPartyResponse (with_relations d p)"
      by (auto simp only: set_map)
    from matches_where_listed(1) [OF m [OF p]] show "\<not> r_isPrivate r"
      by (simp add: r format_fields)
  qed
  have "sorted (map startsAt (sort_key startsAt ?found))" by (rule sorted_sort_key)
  then have "sorted (take (limit filters)
                       (drop (nat ?skip) (map startsAt (sort_key startsAt ?found))))"
    by (intro sorted_wrt_take sorted_wrt_drop)
  then have "sorted (map startsAt ?ps)"
    by (simp only: take_map drop_map)
  moreover have "r_startsAt \<circ> (\<lambda>p. formatPartyResponse (with_relations d p)) = startsAt"
    by (rule ext) (simp add: format_fields)
  ultimately have srt: "sorted (map r_startsAt ?rs)"
    by (simp only: map_map)
  have up: "f_upcoming filters = Some True \<longrightarrow>
                (\<forall>r \<in> set ?rs. r_status r \<in> {PLANNED, LIVE} \<and> now \<le> r_startsAt r)"
  proof (intro impI ballI)
    fix r assume u: "f_upcoming filters = Some True" and "r \<in> set ?rs"
    then obtain p where p: "p \<in> set ?ps" and r: "r = formatPartyResponse (with_relations d p)"
      by (auto simp only: set_map)
    from matches_where_listed(2) [OF m [OF p] u]
    show "r_status r \<in> {PLANNED, LIVE} \<and> now \<le> r_startsAt r"
      by (simp add: r format_fields)
  qed
  from res priv srt up show ?thesis by blast
qed

text \<open>
  Alice hosts the private \<open>p1\<close>, the ended \<open>p2\<close> and the planned \<open>p4\<close>. Her parties listed
  without other filter are \<open>p4\<close> then \<open>p2\<close>; listed with \<^verbatim>\<open>upcoming\<close>, \<open>p4\<close> alone.
\<close>

theorem listParties_public_sorted_witness:
  "1 \<le> page ex_filters
   \<and> (\<exists>rs total. listParties 0 ex_store ex_filters = Inr (rs, total)
           \<and> (\<forall>r \<in> set rs. \<not> r_isPrivate r)
           \<and> sorted (map r_startsAt rs)
           \<and> (f_upcoming ex_filters = Some True \<longrightarrow>
                (\<forall>r \<in> set rs. r_status r \<in> {PLANNED, LIVE} \<and> 0 \<le> r_startsAt r)))
   \<and> map_sum id (map r_id \<circ> fst) (listParties 0 ex_store ex_filters) = Inr [''p4'']
   \<and> map_sum id (map r_id \<circ> fst) (listParties 0 ex_store (ex_filters\<lparr>f_upcoming := None\<rparr>))
       = Inr [''p4'', ''p2'']"
proof -
  have h1: "1 \<le> page ex_filters" by (simp add: ex_filters_def)
  have e1: "map_sum id (map r_id \<circ> fst) (listParties 0 ex_store ex_filters) = Inr [''p4'']"
    by (simp add: listParties_def listParties_where_def matches_where_def ex_filters_def
          ex_defs truthy_string_def formatPartyResponse_def with_relations_def tagsOf_def)
  have e2: "map_sum id (map r_id \<circ> fst) (listParties 0 ex_store (ex_filters\<lparr>f_upcoming := None\<rparr>))
       = Inr [''p4'', ''p2'']"
    by (simp add: listParties_def listParties_where_def matches_where_def ex_filters_def
          ex_defs truthy_string_def formatPartyResponse_def with_relations_def tagsOf_def)
  from listParties_public_sorted [OF h1, of 0 ex_store] h1 e1 e2
  show ?thesis by simp
qed

subsection \<open>C10: the response of a first join by access code\<close>

text \<open>
  C10. When \<^verbatim>\<open>joinByAccessCode\<close> makes a first join (the party of the code is not full
  and the user has no attendee row), it succeeds and returns the party as read before
  the write: the \<^verbatim>\<open>attendeesCount\<close> of the response is the old one and does not count
  the caller, while the stored count and the roster have grown by one. The party found
  by its code is the party of its id, as in every store with unique ids
  (\<open>primary_key\<close>).
\<close>

theorem joinByAccessCode_first_join_stale_count:
  assumes "partyEvent_findUnique_accessCode d code = Some p"
      and "partyEvent_findUnique d (p_id p) = Some p"
      and "partyAttendee_findUnique d (p_id p) userId = None"
      and "\<not> (truthy_number (maxAttendees p) \<and> attendeesCount p \<ge> the (maxAttendees p))"
  shows "fst (joinByAccessCode d userId code) = Inr (formatPartyResponse (with_relations d p))
         \<and> r_attendeesCount (formatPartyResponse (with_relations d p)) = attendeesCount p
         \<and> map_option attendeesCount
             (partyEvent_findUnique (snd (joinByAccessCode d userId code)) (p_id p))
            = Some (attendeesCount p + 1)
         \<and> partyAttendee_count (snd (joinByAccessCode d userId code)) (p_id p)
            = partyAttendee_count d (p_id p) + 1"
proof -
  let ?d' = "d\<lparr>partyAttendees := partyAttendees d @
                     [\<lparr>a_partyId = p_id p, a_userId = userId, role = ''guest''\<rparr>],
                  partyEvents := map (\<lambda>q. if p_id q = p_id p
                       then q\<lparr>attendeesCount := attendeesCount q + 1\<rparr> else q) (partyEvents d)\<rparr>"
  have e: "joinByAccessCode d userId code = (Inr (formatPartyResponse (with_relations d p)), ?d')"
    using assms(1,3,4) by (simp add: joinByAccessCode_def Let_def transaction_join [OF assms(3,2)])
  have c: "r_attendeesCount (formatPartyResponse (with_relations d p)) = attendeesCount p"
    by (simp add: format_fields)
  have f: "map_option attendeesCount (partyEvent_findUnique ?d' (p_id p))
             = Some (attendeesCount p + 1)"
    by (simp add: findUnique_after_update assms(2))
  have n: "partyAttendee_count ?d' (p_id p) = partyAttendee_count d (p_id p) + 1"
    by (simp add: partyAttendee_count_def)
  from c f n show ?thesis unfolding e by simp
qed

text \<open>
  Erin joins the private party \<open>p3\<close> (two attendees, five places) by its code: the
  response says two attendees, the store says three.
\<close>

theorem joinByAccessCode_first_join_stale_count_witness:
  "partyEvent_findUnique_accessCode ex_store ''XYZ789'' = Some ex_roomy
   \<and> partyEvent_findUnique ex_store (p_id ex_roomy) = Some ex_roomy
   \<and> partyAttendee_findUnique ex_store (p_id ex_roomy) ''erin'' = None
   \<and> \<not> (truthy_number (maxAttendees ex_roomy)
         \<and> attendeesCount ex_roomy \<ge> the (maxAttendees ex_roomy))
   \<and> map_sum id r_attendeesCount (fst (joinByAccessCode ex_store ''erin'' ''XYZ789'')) = Inr 2
   \<and> map_option attendeesCount
       (partyEvent_findUnique (snd (joinByAccessCode ex_store ''erin'' ''XYZ789'')) ''p3'')
      = Some 3
   \<and> partyAttendee_count (snd (joinByAccessCode ex_store ''erin'' ''XYZ789'')) ''p3'' = 3"
proof -
  have h1: "partyEvent_findUnique_accessCode ex_store ''XYZ789'' = Some ex_roomy"
    by (simp add: ex_defs partyEvent_findUnique_accessCode_def)
  have h2: "partyEvent_findUnique ex_store (p_id ex_roomy) = Some ex_roomy"
    by (simp add: ex_defs partyEvent_findUnique_def)
  have h3: "partyAttendee_findUnique ex_store (p_id ex_roomy) ''erin'' = None"
    by (simp add: ex_defs partyAttendee_findUnique_def)
  have h4: "\<not> (truthy_number (maxAttendees ex_roomy)
         \<and> attendeesCount ex_roomy \<ge> the (maxAttendees ex_roomy))"
    by (simp add: ex_roomy_def)
  have i: "p_id ex_roomy = ''p3''" "attendeesCount ex_roomy = 2" by (simp_all add: ex_roomy_def)
  have n: "partyAttendee_count ex_store ''p3'' = 2"
    by (simp add: ex_defs partyAttendee_count_def)
  from joinByAccessCode_first_join_stale_count [OF h1 h2 h3 h4] h1 h2 h3 h4
  show ?thesis by (simp add: i n)
qed

end
